theory Spec2Isabelle
  imports Main "HOL-Library.Sublist"
begin

section \<open>JavaScript string primitives used by the tokenizer and the formatter\<close>

text \<open>
  Strings are \<^typ>\<open>string\<close>; the sources only inspect ASCII delimiters, so one \<^typ>\<open>char\<close>
  stands for one UTF-16 code unit.  Offsets are JavaScript numbers and are modelled as
  \<^typ>\<open>int\<close>.  An out-of-range read (\<^verbatim>\<open>text[i]\<close> giving \<^verbatim>\<open>undefined\<close>,
  \<^verbatim>\<open>charCodeAt\<close> giving \<^verbatim>\<open>NaN\<close>, \<^verbatim>\<open>charAt\<close> giving the empty string) is \<open>None\<close>.
\<close>

definition charAt :: "string \<Rightarrow> int \<Rightarrow> char option" where
  "charAt s i = (if 0 \<le> i \<and> i < int (length s) then Some (s ! nat i) else None)"

text \<open>\<^verbatim>\<open>s.substring(a, b)\<close>: both bounds are clamped to the string and swapped when out of order.\<close>

definition substring :: "string \<Rightarrow> int \<Rightarrow> int \<Rightarrow> string" where
  "substring s a b =
     (let n = int (length s);
          a' = max 0 (min a n);
          b' = max 0 (min b n)
      in take (nat (max a' b' - min a' b')) (drop (nat (min a' b')) s))"

definition substringFrom :: "string \<Rightarrow> int \<Rightarrow> string" where
  "substringFrom s a = substring s a (int (length s))"

text \<open>\<^verbatim>\<open>s.substr(start, length)\<close>: a negative start counts from the end.\<close>

definition substrStart :: "string \<Rightarrow> int \<Rightarrow> nat" where
  "substrStart s start =
     (let n = int (length s) in nat (if start < 0 then max (n + start) 0 else min start n))"

definition substr :: "string \<Rightarrow> int \<Rightarrow> int \<Rightarrow> string" where
  "substr s start len = take (nat len) (drop (substrStart s start) s)"

definition substrFrom :: "string \<Rightarrow> int \<Rightarrow> string" where
  "substrFrom s start = drop (substrStart s start) s"

text \<open>\<^verbatim>\<open>s.indexOf(d)\<close>: the first index at which \<open>d\<close> occurs, or \<open>-1\<close>.\<close>

fun indexOf :: "string \<Rightarrow> string \<Rightarrow> int" where
  "indexOf s d =
     (if prefix d s then 0
      else (case s of
              [] \<Rightarrow> - 1
            | _ # s' \<Rightarrow> (let i = indexOf s' d in if i < 0 then - 1 else i + 1)))"

declare indexOf.simps [simp del]

definition dquote :: char where "dquote = CHR 0x22"
definition backslash :: char where "backslash = CHR 0x5C"
definition lineFeed :: char where "lineFeed = CHR 0x0A"
definition carriageReturn :: char where "carriageReturn = CHR 0x0D"
definition tab :: char where "tab = CHR 0x09"

section \<open>The grammar scanner\<close>

datatype SyntaxKind =
    OpenBraceToken | CloseBraceToken | OpenBracketToken | CloseBracketToken
  | CommaToken | ColonToken | NullKeyword | TrueKeyword | FalseKeyword
  | StringLiteral | NumericLiteral | LineCommentTrivia | BlockCommentTrivia
  | LineBreakTrivia | Trivia | Unknown | EOF

datatype ScanError =
    ScanError_None | UnexpectedEndOfComment | UnexpectedEndOfString
  | UnexpectedEndOfNumber | InvalidUnicode | InvalidEscapeCharacter | InvalidCharacter

text \<open>
  Modelled from the spec: the grammar scanner \<^verbatim>\<open>json.createScanner(text, false)\<close> of the
  external library \<^verbatim>\<open>jsonc-parser\<close>, which is not part of the sources.  The spec (section 6)
  gives its interface: \<^verbatim>\<open>scan()\<close> returning a token kind, \<^verbatim>\<open>getPosition\<close>,
  \<^verbatim>\<open>getTokenOffset\<close>, \<^verbatim>\<open>getTokenLength\<close>, \<^verbatim>\<open>getTokenError\<close> and \<^verbatim>\<open>setPosition\<close>, producing
  ``a flat token stream with offsets/lengths/error codes from raw text''.  The scanner object is
  the record below; \<open>scan\<close> follows the library's JSON-with-comments lexical grammar.
\<close>

record Scanner =
  scanText :: string
  pos :: int
  tokenOffset :: int
  token :: SyntaxKind
  tokenError :: ScanError

definition createScanner :: "string \<Rightarrow> Scanner" where
  "createScanner t = \<lparr>scanText = t, pos = 0, tokenOffset = 0, token = Unknown, tokenError = ScanError_None\<rparr>"

definition setPosition :: "Scanner \<Rightarrow> int \<Rightarrow> Scanner" where
  "setPosition sc newPosition =
     sc\<lparr>pos := newPosition, tokenOffset := 0, token := Unknown, tokenError := ScanError_None\<rparr>"

definition getPosition :: "Scanner \<Rightarrow> int" where
  "getPosition sc = pos sc"

definition getTokenOffset :: "Scanner \<Rightarrow> int" where
  "getTokenOffset sc = tokenOffset sc"

definition getTokenLength :: "Scanner \<Rightarrow> int" where
  "getTokenLength sc = pos sc - tokenOffset sc"

definition getTokenError :: "Scanner \<Rightarrow> ScanError" where
  "getTokenError sc = tokenError sc"

definition isWhiteSpace :: "char option \<Rightarrow> bool" where
  "isWhiteSpace c = (c = Some CHR '' '' \<or> c = Some tab)"

definition isLineBreak :: "char option \<Rightarrow> bool" where
  "isLineBreak c = (c = Some lineFeed \<or> c = Some carriageReturn)"

definition isDigit :: "char option \<Rightarrow> bool" where
  "isDigit c = (case c of None \<Rightarrow> False
                | Some ch \<Rightarrow> (48::nat) \<le> of_char ch \<and> of_char ch \<le> (57::nat))"

definition isHexDigit :: "char option \<Rightarrow> bool" where
  "isHexDigit c = (case c of None \<Rightarrow> False
                   | Some ch \<Rightarrow> (let k = (of_char ch :: nat)
                                in (48 \<le> k \<and> k \<le> 57) \<or> (65 \<le> k \<and> k \<le> 70) \<or> (97 \<le> k \<and> k \<le> 102)))"

definition isUnknownContentCharacter :: "char option \<Rightarrow> bool" where
  "isUnknownContentCharacter c =
     (\<not> isWhiteSpace c \<and> \<not> isLineBreak c \<and>
      c \<notin> {Some CHR ''}'', Some CHR '']'', Some CHR ''{'', Some CHR ''['', Some dquote,
           Some CHR '':'', Some CHR '','', Some CHR ''/''})"

text \<open>The number of leading characters of \<open>text\<close> from position \<open>p\<close> on that satisfy \<open>P\<close>.\<close>

definition runLength :: "(char option \<Rightarrow> bool) \<Rightarrow> string \<Rightarrow> int \<Rightarrow> int" where
  "runLength P t p = int (length (takeWhile (\<lambda>c. P (Some c)) (drop (nat p) t)))"

text \<open>
  One round of the loop that scans the body of a string literal: \<open>Inl\<close> when the loop is
  left (with the position and error reached), \<open>Inr\<close> to go round again.
\<close>

definition stringStep :: "string \<Rightarrow> int \<Rightarrow> ScanError \<Rightarrow> int \<times> ScanError + int \<times> ScanError" where
  "stringStep t p err =
     (case charAt t p of
        None \<Rightarrow> Inl (p, UnexpectedEndOfString)
      | Some ch \<Rightarrow>
          if ch = dquote then Inl (p + 1, err)
          else if ch = backslash then
            (case charAt t (p + 1) of
               None \<Rightarrow> Inl (p + 1, UnexpectedEndOfString)
             | Some ch2 \<Rightarrow>
                 if ch2 = CHR ''u'' then
                   (let k = int (length (takeWhile (\<lambda>c. isHexDigit (Some c))
                                          (take 4 (drop (nat (p + 2)) t))))
                    in Inr (p + 2 + k, if k < 4 then InvalidUnicode else err))
                 else if ch2 \<in> {dquote, backslash, CHR ''/'', CHR ''b'', CHR ''f'', CHR ''n'',
                                CHR ''r'', CHR ''t''}
                 then Inr (p + 2, err)
                 else Inr (p + 2, InvalidEscapeCharacter))
          else if (of_char ch :: nat) \<le> 31 then
            (if isLineBreak (Some ch) then Inl (p, UnexpectedEndOfString)
             else Inr (p + 1, InvalidCharacter))
          else Inr (p + 1, err))"

lemma stringStep_Inr: "stringStep t p err = Inr (p', err') \<Longrightarrow> p < p' \<and> p < int (length t)"
  by (auto simp: stringStep_def charAt_def Let_def split: option.splits if_splits)

lemma stringStep_Inl: "stringStep t p err = Inl (p', err') \<Longrightarrow> p \<le> p'"
  by (auto simp: stringStep_def Let_def split: option.splits if_splits)

text \<open>The body of a string literal, from the position after the opening quote.\<close>

function scanString :: "string \<Rightarrow> int \<Rightarrow> ScanError \<Rightarrow> int \<times> ScanError" where
  "scanString t p err =
     (case stringStep t p err of
        Inl r \<Rightarrow> r
      | Inr (p', err') \<Rightarrow> scanString t p' err')"
  by pat_completeness auto
termination
  by (relation "measure (\<lambda>(t, p, err). nat (int (length t) - p))")
     (auto dest: stringStep_Inr)

declare scanString.simps [simp del]

text \<open>A number, from its first digit (after an optional minus sign).\<close>

definition scanNumber :: "string \<Rightarrow> int \<Rightarrow> int \<times> ScanError" where
  "scanNumber t p0 =
     (let p1 = (if charAt t p0 = Some CHR ''0'' then p0 + 1
                else p0 + 1 + runLength isDigit t (p0 + 1))
      in if charAt t p1 = Some CHR ''.'' \<and> \<not> isDigit (charAt t (p1 + 1))
         then (p1 + 1, UnexpectedEndOfNumber)
         else
           (let p2 = (if charAt t p1 = Some CHR ''.''
                      then p1 + 2 + runLength isDigit t (p1 + 2) else p1)
            in if charAt t p2 = Some CHR ''E'' \<or> charAt t p2 = Some CHR ''e'' then
                 (let p3 = (if charAt t (p2 + 1) = Some CHR ''+'' \<or> charAt t (p2 + 1) = Some CHR ''-''
                            then p2 + 2 else p2 + 1)
                  in if isDigit (charAt t p3)
                     then (p3 + 1 + runLength isDigit t (p3 + 1), ScanError_None)
                     else (p3, UnexpectedEndOfNumber))
               else (p2, ScanError_None)))"

text \<open>A block comment, from the position after \<^verbatim>\<open>/*\<close>: the position after it and whether it was closed.\<close>

function scanBlockComment :: "string \<Rightarrow> int \<Rightarrow> int \<times> bool" where
  "scanBlockComment t p =
     (if p < int (length t) - 1 then
        (if charAt t p = Some CHR ''*'' \<and> charAt t (p + 1) = Some CHR ''/'' then (p + 2, True)
         else scanBlockComment t (p + 1))
      else (p, False))"
  by pat_completeness auto
termination
  by (relation "measure (\<lambda>(t, p). nat (int (length t) - p))") auto

declare scanBlockComment.simps [simp del]

definition scanWord :: "string \<Rightarrow> SyntaxKind" where
  "scanWord v =
     (if v = ''true'' then TrueKeyword
         else if v = ''false'' then FalseKeyword
         else if v = ''null'' then NullKeyword
      else Unknown)"

text \<open>
  The branches of \<^verbatim>\<open>scanNext\<close> on the text \<open>t\<close> at position \<open>p\<close>.  Each gives the position
  after the token, its kind and its error code.
\<close>

definition punctuation :: "char option \<Rightarrow> SyntaxKind option" where
  "punctuation code =
     (if code = Some CHR ''{'' then Some OpenBraceToken
      else if code = Some CHR ''}'' then Some CloseBraceToken
      else if code = Some CHR ''['' then Some OpenBracketToken
      else if code = Some CHR '']'' then Some CloseBracketToken
      else if code = Some CHR '':'' then Some ColonToken
      else if code = Some CHR '','' then Some CommaToken
      else None)"

definition scanSlash :: "string \<Rightarrow> int \<Rightarrow> int \<times> SyntaxKind \<times> ScanError" where
  "scanSlash t p =
     (if charAt t (p + 1) = Some CHR ''/'' then
        (p + 2 + runLength (\<lambda>c. \<not> isLineBreak c) t (p + 2), LineCommentTrivia, ScanError_None)
      else if charAt t (p + 1) = Some CHR ''*'' then
        (let r = scanBlockComment t (p + 2)
         in if snd r then (fst r, BlockCommentTrivia, ScanError_None)
            else (fst r + 1, BlockCommentTrivia, UnexpectedEndOfComment))
      else (p + 1, Unknown, ScanError_None))"

definition scanMinusOrDigit :: "string \<Rightarrow> int \<Rightarrow> int \<times> SyntaxKind \<times> ScanError" where
  "scanMinusOrDigit t p =
     (if charAt t p = Some CHR ''-'' then
        (if \<not> isDigit (charAt t (p + 1)) then (p + 1, Unknown, ScanError_None)
         else (let r = scanNumber t (p + 1) in (fst r, NumericLiteral, snd r)))
      else (let r = scanNumber t p in (fst r, NumericLiteral, snd r)))"

text \<open>The \<^verbatim>\<open>default\<close> branch: a word of unknown-content characters, or one unknown character.
  At a negative position the reads give \<^verbatim>\<open>NaN\<close> until position 0 is reached.\<close>

definition scanDefault :: "string \<Rightarrow> int \<Rightarrow> int \<times> SyntaxKind \<times> ScanError" where
  "scanDefault t p =
     (let p' = (if p < 0 then runLength isUnknownContentCharacter t 0
                else p + runLength isUnknownContentCharacter t p)
      in if p' \<noteq> p then (p', scanWord (substring t p p'), ScanError_None)
         else (p + 1, Unknown, ScanError_None))"

definition scanToken :: "string \<Rightarrow> int \<Rightarrow> int \<times> SyntaxKind \<times> ScanError" where
  "scanToken t p =
     (let code = charAt t p
      in if p \<ge> int (length t) then (p, EOF, ScanError_None)
         else if isWhiteSpace code then
           (p + 1 + runLength isWhiteSpace t (p + 1), Trivia, ScanError_None)
         else if isLineBreak code then
           (if code = Some carriageReturn \<and> charAt t (p + 1) = Some lineFeed then p + 2 else p + 1,
            LineBreakTrivia, ScanError_None)
         else
           (case punctuation code of
              Some kind \<Rightarrow> (p + 1, kind, ScanError_None)
            | None \<Rightarrow>
                if code = Some dquote then
                  (let r = scanString t (p + 1) ScanError_None in (fst r, StringLiteral, snd r))
                else if code = Some CHR ''/'' then scanSlash t p
                else if code = Some CHR ''-'' \<or> isDigit code then scanMinusOrDigit t p
                else scanDefault t p))"

text \<open>\<^verbatim>\<open>scanner.scan()\<close>; the kind it returns is the field \<open>token\<close> of the result.\<close>

definition scan :: "Scanner \<Rightarrow> Scanner" where
  "scan sc =
     (let t = scanText sc; p = pos sc; (p', kind, err) = scanToken t p
      in sc\<lparr>pos := p',
            tokenOffset := (if p \<ge> int (length t) then int (length t) else p),
            token := kind,
            tokenError := err\<rparr>)"

subsection \<open>The scanner moves forward\<close>

lemma scanString_ge: "p \<le> fst (scanString t p err)"
proof (induction t p err rule: scanString.induct)
  case (1 t p err)
  show ?case
  proof (cases "stringStep t p err")
    case (Inl r)
    then show ?thesis
      using stringStep_Inl[of t p err "fst r" "snd r"] by (simp add: scanString.simps)
  next
    case (Inr r)
    then show ?thesis
      using stringStep_Inr[of t p err "fst r" "snd r"] 1[of r "fst r" "snd r"]
      by (simp add: scanString.simps[of t p] case_prod_beta)
  qed
qed

lemma scanBlockComment_ge: "p \<le> fst (scanBlockComment t p)"
proof (induction t p rule: scanBlockComment.induct)
  case (1 t p)
  show ?case
    by (subst scanBlockComment.simps) (use 1 in auto)
qed

lemma runLength_nonneg: "0 \<le> runLength P t p"
  by (simp add: runLength_def)

lemma scanNumber_gt: "p < fst (scanNumber t p)"
proof -
  define p1 where "p1 = (if charAt t p = Some CHR ''0'' then p + 1
                else p + 1 + runLength isDigit t (p + 1))"
  define p2 where "p2 = (if charAt t p1 = Some CHR ''.''
                      then p1 + 2 + runLength isDigit t (p1 + 2) else p1)"
  define p3 where "p3 = (if charAt t (p2 + 1) = Some CHR ''+'' \<or> charAt t (p2 + 1) = Some CHR ''-''
                            then p2 + 2 else p2 + 1)"
  have 1: "p < p1" using runLength_nonneg[of isDigit t "p + 1"] by (simp add: p1_def)
  have 2: "p1 \<le> p2" using runLength_nonneg[of isDigit t "p1 + 2"] by (simp add: p2_def)
  have 3: "p2 < p3" by (simp add: p3_def)
  have 4: "0 \<le> runLength isDigit t (p3 + 1)" by (rule runLength_nonneg)
  have "scanNumber t p =
      (if charAt t p1 = Some CHR ''.'' \<and> \<not> isDigit (charAt t (p1 + 1))
         then (p1 + 1, UnexpectedEndOfNumber)
         else
           (if charAt t p2 = Some CHR ''E'' \<or> charAt t p2 = Some CHR ''e'' then
                 (if isDigit (charAt t p3)
                     then (p3 + 1 + runLength isDigit t (p3 + 1), ScanError_None)
                     else (p3, UnexpectedEndOfNumber))
               else (p2, ScanError_None)))"
    unfolding scanNumber_def Let_def p1_def p2_def p3_def by (rule refl)
  then show ?thesis using 1 2 3 4 by (simp split: if_splits)
qed

lemma scanText_scan: "scanText (scan sc) = scanText sc"
  by (simp add: scan_def Let_def split: prod.splits)

lemma scanToken_eof: "int (length t) \<le> p \<Longrightarrow> scanToken t p = (p, EOF, ScanError_None)"
  by (simp add: scanToken_def)

lemma scanWord_not_EOF: "scanWord v \<noteq> EOF"
  by (simp add: scanWord_def)

lemma scanSlash_gt: "p < fst (scanSlash t p)"
  using scanBlockComment_ge[of "p + 2" t] runLength_nonneg[of "\<lambda>c. \<not> isLineBreak c" t "p + 2"]
  by (simp add: scanSlash_def Let_def)

lemma scanMinusOrDigit_gt: "p < fst (scanMinusOrDigit t p)"
  using scanNumber_gt[of "p" t] scanNumber_gt[of "p + 1" t]
  by (simp add: scanMinusOrDigit_def Let_def)

lemma scanDefault_gt: "p < fst (scanDefault t p)"
  using runLength_nonneg[of isUnknownContentCharacter t p]
        runLength_nonneg[of isUnknownContentCharacter t 0]
  by (simp add: scanDefault_def Let_def)

lemma scanToken_advances: "p < int (length t) \<Longrightarrow> p < fst (scanToken t p)"
  using scanString_ge[of "p + 1" t ScanError_None]
        runLength_nonneg[of isWhiteSpace t "p + 1"]
  by (simp add: scanToken_def Let_def scanSlash_gt scanMinusOrDigit_gt scanDefault_gt split: option.splits)

lemma punctuation_not_EOF: "punctuation c = Some k \<Longrightarrow> k \<noteq> EOF"
  by (auto simp: punctuation_def split: if_splits)

lemma scanSlash_kind: "fst (snd (scanSlash t p)) \<noteq> EOF"
  by (simp add: scanSlash_def Let_def)

lemma scanMinusOrDigit_kind: "fst (snd (scanMinusOrDigit t p)) \<noteq> EOF"
  by (simp add: scanMinusOrDigit_def Let_def)

lemma scanDefault_kind: "fst (snd (scanDefault t p)) \<noteq> EOF"
  by (simp add: scanDefault_def Let_def scanWord_not_EOF)

lemma scanToken_not_eof: "p < int (length t) \<Longrightarrow> fst (snd (scanToken t p)) \<noteq> EOF"
  by (simp add: scanToken_def Let_def scanSlash_kind scanMinusOrDigit_kind scanDefault_kind
        punctuation_not_EOF split: option.splits)

lemma pos_scan: "pos (scan sc) = fst (scanToken (scanText sc) (pos sc))"
  by (simp add: scan_def Let_def split: prod.splits)

lemma token_scan: "token (scan sc) = fst (snd (scanToken (scanText sc) (pos sc)))"
  by (simp add: scan_def Let_def split: prod.splits)

lemma scan_advances: "pos sc < int (length (scanText sc)) \<Longrightarrow> pos sc < pos (scan sc)"
  by (simp add: pos_scan scanToken_advances)

lemma scan_at_end: "int (length (scanText sc)) \<le> pos sc \<Longrightarrow> pos (scan sc) = pos sc \<and> token (scan sc) = EOF"
  by (simp add: pos_scan token_scan scanToken_eof)

lemma scan_not_eof: "token (scan sc) \<noteq> EOF \<Longrightarrow> pos sc < int (length (scanText sc))"
  using scan_at_end[of sc] by force

lemma scan_mono: "pos sc \<le> pos (scan sc)"
  using scan_advances[of sc] scan_at_end[of sc] by force

section \<open>Tokenizer state\<close>

datatype JSONParent = Object | Array

text \<open>
  \<^verbatim>\<open>class ParentsStack\<close>: a node with two readonly fields.  A value of the datatype is the
  whole chain reachable from a node; \<^verbatim>\<open>null\<close> is \<open>None\<close>.
\<close>

datatype ParentsStack = ParentsStack (parent: "ParentsStack option") (type: JSONParent)

definition ParentsStack_pop :: "ParentsStack option \<Rightarrow> ParentsStack option" where
  "ParentsStack_pop parents = (case parents of Some p \<Rightarrow> parent p | None \<Rightarrow> None)"

definition ParentsStack_push :: "ParentsStack option \<Rightarrow> JSONParent \<Rightarrow> ParentsStack option" where
  "ParentsStack_push parents ty = Some (ParentsStack parents ty)"

text \<open>
  The \<^verbatim>\<open>while (a && b)\<close> loop of \<^verbatim>\<open>ParentsStack.equals\<close>.  The test \<^verbatim>\<open>a === b\<close> compares
  references; two references to one node denote equal chains, and for equal chains the
  remaining iterations answer \<open>True\<close> as well, so the test on values gives the same result.
\<close>

fun equalsLoop :: "ParentsStack option \<Rightarrow> ParentsStack option \<Rightarrow> bool" where
  "equalsLoop (Some (ParentsStack pa ta)) (Some (ParentsStack pb tb)) =
     (if ParentsStack pa ta = ParentsStack pb tb then True
      else if ta \<noteq> tb then False
      else equalsLoop pa pb)"
| "equalsLoop _ _ = True"

definition ParentsStack_equals :: "ParentsStack option \<Rightarrow> ParentsStack option \<Rightarrow> bool" where
  "ParentsStack_equals a b =
     (if a = None \<and> b = None then True
      else if a = None \<or> b = None then False
      else equalsLoop a b)"

text \<open>
  \<^verbatim>\<open>class JSONState\<close>.  The embedded state \<^verbatim>\<open>_state\<close> is opaque (type \<open>'s\<close>);
  \<^verbatim>\<open>scanError\<close> is \<^verbatim>\<open>ScanError | null\<close>.
\<close>

record 's JSONState =
  stateData :: "'s option"
  scanError :: "ScanError option"
  lastWasColon :: bool
  parents :: "ParentsStack option"

definition getInitialState :: "'s JSONState" where
  "getInitialState = \<lparr>stateData = None, scanError = None, lastWasColon = False, parents = None\<rparr>"

definition clone :: "'s JSONState \<Rightarrow> 's JSONState" where
  "clone st = \<lparr>stateData = stateData st, scanError = scanError st,
               lastWasColon = lastWasColon st, parents = parents st\<rparr>"

text \<open>
  \<^verbatim>\<open>JSONState.equals\<close> for an argument that is a \<^verbatim>\<open>JSONState\<close>.  The reference test
  \<^verbatim>\<open>other === this\<close> is subsumed: a state compared with itself passes the three tests below.
\<close>

definition JSONState_equals :: "'s JSONState \<Rightarrow> 's JSONState \<Rightarrow> bool" where
  "JSONState_equals this other =
     (scanError this = scanError other \<and>
      lastWasColon this = lastWasColon other \<and>
      ParentsStack_equals (parents this) (parents other))"

section \<open>Tokens\<close>

definition TOKEN_DELIM_OBJECT :: string where "TOKEN_DELIM_OBJECT = ''delimiter.bracket.json''"
definition TOKEN_DELIM_ARRAY :: string where "TOKEN_DELIM_ARRAY = ''delimiter.array.json''"
definition TOKEN_DELIM_COLON :: string where "TOKEN_DELIM_COLON = ''delimiter.colon.json''"
definition TOKEN_DELIM_COMMA :: string where "TOKEN_DELIM_COMMA = ''delimiter.comma.json''"
definition TOKEN_VALUE_BOOLEAN :: string where "TOKEN_VALUE_BOOLEAN = ''keyword.json''"
definition TOKEN_VALUE_NULL :: string where "TOKEN_VALUE_NULL = ''keyword.json''"
definition TOKEN_VALUE_STRING :: string where "TOKEN_VALUE_STRING = ''string.value.json''"
definition TOKEN_VALUE_NUMBER :: string where "TOKEN_VALUE_NUMBER = ''number.json''"
definition TOKEN_PROPERTY_NAME :: string where "TOKEN_PROPERTY_NAME = ''string.key.json''"
definition TOKEN_COMMENT_BLOCK :: string where "TOKEN_COMMENT_BLOCK = ''comment.block.json''"
definition TOKEN_COMMENT_LINE :: string where "TOKEN_COMMENT_LINE = ''comment.line.json''"
definition TOKEN_POSTMAN_VARIABLE :: string where
  "TOKEN_POSTMAN_VARIABLE = ''postman.variable.json''"
definition TOKEN_POSTMAN_VARIABLE_IN_STRING :: string where
  "TOKEN_POSTMAN_VARIABLE_IN_STRING = ''postman.variable.string.json''"

text \<open>
  An emitted token: \<^verbatim>\<open>{ startIndex, scopes }\<close>, with the additional property \<^verbatim>\<open>endIndex\<close>
  (the index of the token's last character) on the tokens that the placeholder scanner
  creates with one; \<open>None\<close> when the object has no such property.
\<close>

record IToken =
  startIndex :: int
  scopes :: string
  endIndex :: "int option"

text \<open>The objects \<^verbatim>\<open>{ startIndex, scopes, endIndex }\<close> kept on the placeholder scanner's stack.\<close>

record Bracket =
  startIndexB :: int
  scopesB :: string
  endIndexB :: int

definition bracketToken :: "Bracket \<Rightarrow> IToken" where
  "bracketToken b = \<lparr>startIndex = startIndexB b, scopes = scopesB b, endIndex = Some (endIndexB b)\<rparr>"

text \<open>
  The ways in which \<^verbatim>\<open>tokenize\<close> ends without a result: the error it throws itself when the
  scanner does not advance, a \<^verbatim>\<open>TypeError\<close> (a property read on \<^verbatim>\<open>undefined\<close>), a scanner
  position that is \<^verbatim>\<open>NaN\<close>, and the \<^verbatim>\<open>ReferenceError\<close> of an assignment to an identifier that
  is declared nowhere.
\<close>

datatype error = ScannerDidNotAdvance | TypeError | NaNPosition | ReferenceError

section \<open>Placeholder detection in the tokenizer\<close>

text \<open>
  The inner \<^verbatim>\<open>while (stack.length >= 0)\<close> loop: pop markers until two with adjacent start
  offsets are found.  The stack is a list with its top at the head.  The result is the marker
  to insert (if any) and the stack that is left.
\<close>

fun popAdjacent :: "Bracket \<Rightarrow> Bracket list \<Rightarrow> Bracket option \<times> Bracket list" where
  "popAdjacent currentPopped [] = (None, [])"
| "popAdjacent currentPopped (nextPopped # stack) =
     (if startIndexB currentPopped = startIndexB nextPopped + 1 then (Some nextPopped, stack)
      else popAdjacent nextPopped stack)"

definition popMatch :: "Bracket list \<Rightarrow> Bracket option \<times> Bracket list" where
  "popMatch stack = (case stack of [] \<Rightarrow> (None, [])
                     | currentPopped # stack' \<Rightarrow> popAdjacent currentPopped stack')"

text \<open>The \<^verbatim>\<open>while (pos < length)\<close> loop of \<^verbatim>\<open>createPostmanVariableScanner\<close>.\<close>

function scanBrackets ::
  "string \<Rightarrow> int \<Rightarrow> bool \<Rightarrow> nat \<Rightarrow> Bracket list \<Rightarrow> Bracket list \<Rightarrow> Bracket list" where
  "scanBrackets s offset inString p stack matchedBrackets =
     (if p < length s then
        (if s ! p = CHR ''{'' then
           scanBrackets s offset inString (p + 1)
             (\<lparr>startIndexB = offset + int p, scopesB = [], endIndexB = 0\<rparr> # stack) matchedBrackets
         else if s ! p = CHR ''}'' \<and> p + 1 < length s \<and> s ! (p + 1) = CHR ''}'' then
           (case popMatch stack of
              (Some toBeInsertedPopped, stack') \<Rightarrow>
                scanBrackets s offset inString (p + 2) stack'
                  (matchedBrackets @
                    [toBeInsertedPopped
                       \<lparr>scopesB := (if inString then TOKEN_POSTMAN_VARIABLE_IN_STRING
                                     else TOKEN_POSTMAN_VARIABLE),
                        endIndexB := offset + int p + 1\<rparr>])
            | (None, stack') \<Rightarrow> scanBrackets s offset inString (p + 1) stack' matchedBrackets)
         else scanBrackets s offset inString (p + 1) stack matchedBrackets)
      else matchedBrackets)"
  by pat_completeness auto
termination
  by (relation "measure (\<lambda>(s, offset, inString, p, stack, matched). length s - p)") auto

declare scanBrackets.simps [simp del]

text \<open>Remove nested brackets.\<close>

fun removeNested :: "Bracket list \<Rightarrow> int \<Rightarrow> Bracket list" where
  "removeNested [] endIndexOfLastFilteredBracket = []"
| "removeNested (b # bs) endIndexOfLastFilteredBracket =
     (if startIndexB b > endIndexOfLastFilteredBracket
      then b # removeNested bs (endIndexB b)
      else removeNested bs endIndexOfLastFilteredBracket)"

text \<open>
  The loop over \<^verbatim>\<open>filteredBrackets\<close> that fills \<^verbatim>\<open>scannedResults\<close>; \<open>filler\<close> is the scope of
  the string tokens between placeholders.  It returns \<^verbatim>\<open>scannedResults\<close> and
  \<^verbatim>\<open>endIndexLastTokenCreated\<close>.
\<close>

fun createTokens ::
  "bool \<Rightarrow> string \<Rightarrow> Bracket list \<Rightarrow> int \<Rightarrow> IToken list \<Rightarrow> IToken list \<times> int" where
  "createTokens inString filler [] endIndexLastTokenCreated scannedResults =
     (scannedResults, endIndexLastTokenCreated)"
| "createTokens inString filler (current # rest) endIndexLastTokenCreated scannedResults =
     (let (results1, end1) =
            (if endIndexLastTokenCreated < startIndexB current
             then (scannedResults @ [bracketToken current], endIndexB current)
             else (scannedResults, endIndexLastTokenCreated))
      in case rest of
           [] \<Rightarrow> createTokens inString filler rest end1 results1
         | next # _ \<Rightarrow>
             if startIndexB next = endIndexB current + 1
             then createTokens inString filler rest end1 results1
             else createTokens inString filler rest (startIndexB next - 1)
                    (if inString
                     then results1 @ [\<lparr>startIndex = endIndexB current + 1, scopes = filler,
                                       endIndex = Some (startIndexB next - 1)\<rparr>]
                     else results1))"

definition createPostmanVariableScanner ::
  "string \<Rightarrow> int \<Rightarrow> bool \<Rightarrow> bool \<Rightarrow> error + IToken list" where
  "createPostmanVariableScanner stringLiteral offset inValue inString =
     (let len = int (length stringLiteral);
          matchedBrackets = scanBrackets stringLiteral offset inString 0 [] [];
          filler = (if inValue then TOKEN_VALUE_STRING else TOKEN_PROPERTY_NAME)
      in if matchedBrackets \<noteq> [] then
           (let filteredBrackets = removeNested (sort_key startIndexB matchedBrackets) (- 1)
            in case filteredBrackets of
                 [] \<Rightarrow> (if inString then Inl TypeError else Inr [])
               | first # _ \<Rightarrow>
                   (let (results0, end0) =
                          (if inString \<and> startIndexB first \<noteq> offset
                           then ([\<lparr>startIndex = offset, scopes = filler,
                                    endIndex = Some (startIndexB first - 1)\<rparr>],
                                 startIndexB first - 1)
                           else ([], - 1));
                        (results1, end1) = createTokens inString filler filteredBrackets end0 results0
                    in if end1 < offset + len \<and> inString
                       then Inr (results1 @ [\<lparr>startIndex = end1 + 1, scopes = filler,
                                                endIndex = None\<rparr>])
                       else Inr results1))
         else Inr [])"

text \<open>
  \<^verbatim>\<open>findClosestDelimiter\<close> begins with the assignment \<^verbatim>\<open>length = delimiter.length\<close>, and the
  identifier \<^verbatim>\<open>length\<close> is declared nowhere in the module: the assignment is to a property of
  the global object.  The module is strict code, where such an assignment throws a
  \<^verbatim>\<open>ReferenceError\<close> unless the global object has the property.  A window has one, and it can
  be written (\<open>Writable\<close>); the global object of a worker has none (\<open>Undeclared\<close>).  Where the
  assignment succeeds, the reads of \<^verbatim>\<open>length\<close> that follow in the function give the value
  just written, the number of delimiters; nothing else in the tokenizer reads the property.
\<close>

datatype GlobalLength = Writable | Undeclared

text \<open>The loop of \<^verbatim>\<open>findClosestDelimiter\<close>; \<^verbatim>\<open>Infinity\<close> is \<open>None\<close>.\<close>

fun leastIndexLoop :: "string \<Rightarrow> string list \<Rightarrow> int option \<Rightarrow> int option" where
  "leastIndexLoop stringLiteral [] leastIndex = leastIndex"
| "leastIndexLoop stringLiteral (d # ds) leastIndex =
     (let index = indexOf stringLiteral d
      in leastIndexLoop stringLiteral ds
           (if (case leastIndex of None \<Rightarrow> True | Some l \<Rightarrow> l > index) \<and> index > - 1
            then Some index else leastIndex))"

definition findClosestDelimiter ::
  "GlobalLength \<Rightarrow> string \<Rightarrow> string list \<Rightarrow> error + int" where
  "findClosestDelimiter globalLength stringLiteral delimiter =
     (case globalLength of
        Undeclared \<Rightarrow> Inl ReferenceError
      | Writable \<Rightarrow>
          if length delimiter = 0 then Inr (- 1)
          else (case leastIndexLoop stringLiteral delimiter None of
                  Some leastIndex \<Rightarrow> Inr leastIndex
                | None \<Rightarrow> Inr (- 1)))"


section \<open>The tokenizer\<close>

record 's ILineTokens =
  tokens :: "IToken list"
  endState :: "'s JSONState"

text \<open>The variables of \<^verbatim>\<open>tokenize\<close> that live across iterations of its \<^verbatim>\<open>while (true)\<close> loop.\<close>

record 's TokenizeVars =
  scanner :: Scanner
  lastWasColonV :: bool
  parentsV :: "ParentsStack option"
  openBracesCount :: int
  adjustOffset :: bool
  ret :: "'s ILineTokens"

text \<open>The variables declared inside the loop body and set by the \<^verbatim>\<open>switch (kind)\<close>.\<close>

record TokenLocals =
  typeL :: string
  skip :: bool
  postmanVariablesInString :: "IToken list"

datatype ('r, 'v) iteration = Exit 'r | Continue 'v

definition postman_json :: string where "postman_json = ''postman_json''"

definition doubleBraceDelimiters :: "string list" where
  "doubleBraceDelimiters = ['','', '':'', '']'', [lineFeed]]"

definition stringFromDoubleBraces :: "string \<Rightarrow> Scanner \<Rightarrow> string" where
  "stringFromDoubleBraces line sc = substrFrom line (getPosition sc - 2) @ [lineFeed]"

text \<open>
  \<^verbatim>\<open>case SyntaxKind.OpenBraceToken\<close>.  A last placeholder token without \<^verbatim>\<open>endIndex\<close> would
  send \<^verbatim>\<open>NaN\<close> to \<^verbatim>\<open>setPosition\<close>; this is the result \<open>NaNPosition\<close>.
\<close>

definition openBraceCase ::
  "GlobalLength \<Rightarrow> string \<Rightarrow> string option \<Rightarrow> int \<Rightarrow> 's TokenizeVars
     \<Rightarrow> error + 's TokenizeVars \<times> TokenLocals" where
  "openBraceCase globalLength line languageId offset v =
     (let v1 = v\<lparr>parentsV := ParentsStack_push (parentsV v) Object\<rparr>;
          plain = \<lparr>typeL = TOKEN_DELIM_OBJECT, skip = False, postmanVariablesInString = []\<rparr>;
          untyped = \<lparr>typeL = [], skip = False, postmanVariablesInString = []\<rparr>
      in if openBracesCount v = 2 \<and> languageId = Some postman_json then
           (let sfdb = stringFromDoubleBraces line (scanner v)
            in case findClosestDelimiter globalLength sfdb doubleBraceDelimiters of
                 Inl e \<Rightarrow> Inl e
               | Inr delimiterIndex \<Rightarrow>
                   if delimiterIndex \<ge> 0 then
                      (let delimitedString = substring sfdb 0 delimiterIndex
                       in case createPostmanVariableScanner delimitedString (offset - 1)
                                 (lastWasColonV v) False of
                            Inl e \<Rightarrow> Inl e
                          | Inr toks \<Rightarrow>
                              if toks \<noteq> [] then
                                (case endIndex (last toks) of
                                   None \<Rightarrow> Inl NaNPosition
                                 | Some e \<Rightarrow>
                                     Inr (v1\<lparr>ret := (ret v)\<lparr>tokens := butlast (tokens (ret v)) @ toks\<rparr>,
                                             scanner := setPosition (scanner v) (e + 1),
                                             parentsV := ParentsStack_pop (ParentsStack_pop (parentsV v1)),
                                             lastWasColonV := False\<rparr>,
                                          untyped\<lparr>skip := True\<rparr>))
                              else Inr (v1\<lparr>lastWasColonV := False\<rparr>, untyped))
                    else Inr (v1\<lparr>lastWasColonV := False\<rparr>, plain))
         else Inr (v1\<lparr>lastWasColonV := False\<rparr>, plain))"

text \<open>\<^verbatim>\<open>case SyntaxKind.StringLiteral\<close>.\<close>

definition stringLiteralCase ::
  "string \<Rightarrow> string option \<Rightarrow> int \<Rightarrow> 's TokenizeVars \<Rightarrow> error + 's TokenizeVars \<times> TokenLocals" where
  "stringLiteralCase line languageId offset v =
     (let currentParent = (case parentsV v of Some p \<Rightarrow> type p | None \<Rightarrow> Object);
          inArray = (currentParent = Array);
          inValue = (lastWasColonV v \<or> inArray);
          ty = (if inValue \<or> inArray then TOKEN_VALUE_STRING else TOKEN_PROPERTY_NAME)
      in if languageId = Some postman_json then
           (let tokenValue = substr line (getTokenOffset (scanner v) + 1)
                                (getTokenLength (scanner v) - 2)
            in case createPostmanVariableScanner tokenValue (offset + 1) inValue True of
                 Inl e \<Rightarrow> Inl e
               | Inr toks \<Rightarrow>
                   Inr (v\<lparr>lastWasColonV := False\<rparr>,
                        \<lparr>typeL = ty, skip = False, postmanVariablesInString = toks\<rparr>))
         else Inr (v\<lparr>lastWasColonV := False\<rparr>,
                   \<lparr>typeL = ty, skip = False, postmanVariablesInString = []\<rparr>))"

text \<open>The \<^verbatim>\<open>switch (kind)\<close> on brackets and type.\<close>

definition kindSwitch ::
  "GlobalLength \<Rightarrow> string \<Rightarrow> string option \<Rightarrow> int \<Rightarrow> SyntaxKind \<Rightarrow> 's TokenizeVars
     \<Rightarrow> error + 's TokenizeVars \<times> TokenLocals" where
  "kindSwitch globalLength line languageId offset kind v =
     (let simple = (\<lambda>ty. \<lparr>typeL = ty, skip = False, postmanVariablesInString = []\<rparr>)
      in case kind of
           OpenBraceToken \<Rightarrow> openBraceCase globalLength line languageId offset v
         | CloseBraceToken \<Rightarrow>
             Inr (v\<lparr>parentsV := ParentsStack_pop (parentsV v), lastWasColonV := False\<rparr>,
                  simple TOKEN_DELIM_OBJECT)
         | OpenBracketToken \<Rightarrow>
             Inr (v\<lparr>parentsV := ParentsStack_push (parentsV v) Array, lastWasColonV := False\<rparr>,
                  simple TOKEN_DELIM_ARRAY)
         | CloseBracketToken \<Rightarrow>
             Inr (v\<lparr>parentsV := ParentsStack_pop (parentsV v), lastWasColonV := False\<rparr>,
                  simple TOKEN_DELIM_ARRAY)
         | ColonToken \<Rightarrow> Inr (v\<lparr>lastWasColonV := True\<rparr>, simple TOKEN_DELIM_COLON)
         | CommaToken \<Rightarrow> Inr (v\<lparr>lastWasColonV := False\<rparr>, simple TOKEN_DELIM_COMMA)
         | TrueKeyword \<Rightarrow> Inr (v\<lparr>lastWasColonV := False\<rparr>, simple TOKEN_VALUE_BOOLEAN)
         | FalseKeyword \<Rightarrow> Inr (v\<lparr>lastWasColonV := False\<rparr>, simple TOKEN_VALUE_BOOLEAN)
         | NullKeyword \<Rightarrow> Inr (v\<lparr>lastWasColonV := False\<rparr>, simple TOKEN_VALUE_NULL)
         | StringLiteral \<Rightarrow> stringLiteralCase line languageId offset v
         | NumericLiteral \<Rightarrow> Inr (v\<lparr>lastWasColonV := False\<rparr>, simple TOKEN_VALUE_NUMBER)
         | _ \<Rightarrow> Inr (v, simple []))"

text \<open>The \<^verbatim>\<open>switch (kind)\<close> on comments, taken iff comments are enabled.\<close>

definition commentSwitch :: "bool \<Rightarrow> SyntaxKind \<Rightarrow> string \<Rightarrow> string" where
  "commentSwitch comments kind ty =
     (if comments then
        (case kind of LineCommentTrivia \<Rightarrow> TOKEN_COMMENT_LINE
                    | BlockCommentTrivia \<Rightarrow> TOKEN_COMMENT_BLOCK
                    | _ \<Rightarrow> ty)
      else ty)"

text \<open>
  One iteration of the loop.  \<open>line\<close> is the line after the synthetic prefix was added and
  \<open>n\<close> is \<^verbatim>\<open>numberOfInsertedCharacters\<close>; \<open>globalLength\<close>, the state of the global object that
  \<^verbatim>\<open>findClosestDelimiter\<close> meets, is not a parameter of the source.
\<close>

definition tokenizeStep ::
  "GlobalLength \<Rightarrow> bool \<Rightarrow> string \<Rightarrow> 's JSONState \<Rightarrow> int \<Rightarrow> string option \<Rightarrow> int \<Rightarrow> 's TokenizeVars
     \<Rightarrow> (error + 's ILineTokens, 's TokenizeVars) iteration" where
  "tokenizeStep globalLength comments line state offsetDelta languageId n v =
     (let offset0 = offsetDelta + getPosition (scanner v);
          sc = scan (scanner v);
          kind = token sc
      in if kind = EOF then Exit (Inr (ret v))
         else if offset0 = offsetDelta + getPosition sc then Exit (Inl ScannerDidNotAdvance)
         else
           (let offset = (if adjustOffset v then offset0 - n else offset0);
                v1 = v\<lparr>scanner := sc,
                       adjustOffset := (n > 0),
                       openBracesCount := (if kind = OpenBraceToken then openBracesCount v + 1 else 0)\<rparr>
            in case kindSwitch globalLength line languageId offset kind v1 of
                 Inl e \<Rightarrow> Exit (Inl e)
               | Inr (v2, l) \<Rightarrow>
                   (let ty = commentSwitch comments kind (typeL l);
                        endState' = \<lparr>stateData = stateData state,
                                     scanError = Some (getTokenError (scanner v2)),
                                     lastWasColon = lastWasColonV v2,
                                     parents = parentsV v2\<rparr>;
                        toks1 = (if \<not> skip l
                                 then tokens (ret v2) @ [\<lparr>startIndex = offset, scopes = ty, endIndex = None\<rparr>]
                                 else tokens (ret v2));
                        toks2 = (if postmanVariablesInString l \<noteq> []
                                 then toks1 @ postmanVariablesInString l else toks1)
                    in Continue (v2\<lparr>ret := \<lparr>tokens = toks2, endState = endState'\<rparr>\<rparr>))))"

text \<open>
  The loop runs as long as the scanner delivers tokens; a run that never reaches \<^verbatim>\<open>EOF\<close> is
  the value \<open>None\<close>.
\<close>

partial_function (option) tokenizeLoop ::
  "GlobalLength \<Rightarrow> bool \<Rightarrow> string \<Rightarrow> 's JSONState \<Rightarrow> int \<Rightarrow> string option \<Rightarrow> int \<Rightarrow> 's TokenizeVars
     \<Rightarrow> (error + 's ILineTokens) option" where
  "tokenizeLoop globalLength comments line state offsetDelta languageId n v =
     (case tokenizeStep globalLength comments line state offsetDelta languageId n v of
        Exit r \<Rightarrow> Some r
      | Continue v' \<Rightarrow> tokenizeLoop globalLength comments line state offsetDelta languageId n v')"

declare tokenizeLoop.simps [code]

text \<open>The synthetic prefix for a string or block comment left open by the previous line.\<close>

definition insertedPrefix :: "ScanError option \<Rightarrow> string" where
  "insertedPrefix e =
     (case e of
        Some UnexpectedEndOfString \<Rightarrow> [dquote]
      | Some UnexpectedEndOfComment \<Rightarrow> ''/*''
      | _ \<Rightarrow> [])"

definition tokenize ::
  "GlobalLength \<Rightarrow> bool \<Rightarrow> string \<Rightarrow> 's JSONState \<Rightarrow> int \<Rightarrow> string option
     \<Rightarrow> (error + 's ILineTokens) option" where
  "tokenize globalLength comments line state offsetDelta languageId =
     (let line' = insertedPrefix (scanError state) @ line;
          numberOfInsertedCharacters = int (length (insertedPrefix (scanError state)))
      in tokenizeLoop globalLength comments line' state offsetDelta languageId numberOfInsertedCharacters
           \<lparr>scanner = createScanner line',
            lastWasColonV = lastWasColon state,
            parentsV = parents state,
            openBracesCount = 0,
            adjustOffset = False,
            ret = \<lparr>tokens = [], endState = clone state\<rparr>\<rparr>)"


section \<open>The formatter\<close>

record Range =
  offsetR :: int
  lengthR :: int

record FormattingOptions =
  tabSize :: "int option"
  insertSpaces :: "bool option"
  eol :: "string option"

record Edit =
  offsetE :: int
  lengthE :: int
  content :: string

text \<open>\<^verbatim>\<open>isEOL\<close>: \<^verbatim>\<open>'\r\n'.indexOf(text.charAt(offset)) !== -1\<close>.  Out of range, \<^verbatim>\<open>charAt\<close> is the
  empty string, whose index in any string is 0.\<close>

definition isEOL :: "string \<Rightarrow> int \<Rightarrow> bool" where
  "isEOL t off = (case charAt t off of None \<Rightarrow> True
                  | Some c \<Rightarrow> c = carriageReturn \<or> c = lineFeed)"

fun repeat_loop :: "string \<Rightarrow> nat \<Rightarrow> string" where
  "repeat_loop s 0 = []"
| "repeat_loop s (Suc n) = repeat_loop s n @ s"

definition repeat :: "string \<Rightarrow> int \<Rightarrow> string" where
  "repeat s count = repeat_loop s (nat count)"

text \<open>\<^verbatim>\<open>options.tabSize || 4\<close>.\<close>

definition tabSizeOr4 :: "FormattingOptions \<Rightarrow> int" where
  "tabSizeOr4 options = (case tabSize options of None \<Rightarrow> 4 | Some n \<Rightarrow> if n = 0 then 4 else n)"

fun countIndent :: "string \<Rightarrow> int \<Rightarrow> int \<Rightarrow> int" where
  "countIndent [] ts nChars = nChars"
| "countIndent (ch # cs) ts nChars =
     (if ch = CHR '' '' then countIndent cs ts (nChars + 1)
      else if ch = tab then countIndent cs ts (nChars + ts)
      else nChars)"

definition computeIndentLevel :: "string \<Rightarrow> FormattingOptions \<Rightarrow> int" where
  "computeIndentLevel cont options =
     (let ts = tabSizeOr4 options in countIndent cont ts 0 div ts)"

fun firstEOL :: "string \<Rightarrow> string option" where
  "firstEOL [] = None"
| "firstEOL (ch # cs) =
     (if ch = carriageReturn then
        (if cs \<noteq> [] \<and> hd cs = lineFeed then Some [carriageReturn, lineFeed]
         else Some [carriageReturn])
      else if ch = lineFeed then Some [lineFeed]
      else firstEOL cs)"

definition getEOL :: "FormattingOptions \<Rightarrow> string \<Rightarrow> string" where
  "getEOL options t =
     (case firstEOL t of
        Some e \<Rightarrow> e
      | None \<Rightarrow> (case eol options of
                   Some e \<Rightarrow> if e = [] then [lineFeed] else e
                 | None \<Rightarrow> [lineFeed]))"

text \<open>The two loops that widen a range to whole lines.\<close>

function lineStart :: "string \<Rightarrow> int \<Rightarrow> int" where
  "lineStart documentText formatTextStart =
     (if formatTextStart > 0 \<and> \<not> isEOL documentText (formatTextStart - 1)
      then lineStart documentText (formatTextStart - 1)
      else formatTextStart)"
  by pat_completeness auto
termination
  by (relation "measure (\<lambda>(d, i). nat i)") auto

declare lineStart.simps [simp del]

function lineEnd :: "string \<Rightarrow> int \<Rightarrow> int" where
  "lineEnd documentText endOffset =
     (if endOffset < int (length documentText) \<and> \<not> isEOL documentText endOffset
      then lineEnd documentText (endOffset + 1)
      else endOffset)"
  by pat_completeness auto
termination
  by (relation "measure (\<lambda>(d, i). nat (int (length d) - i))") auto

declare lineEnd.simps [simp del]

text \<open>The variables of \<^verbatim>\<open>formatJSON\<close> that are fixed once the scan starts.\<close>

record FormatEnv =
  documentText :: string
  formatText :: string
  formatTextStart :: int
  rangeStart :: int
  rangeEnd :: int
  initialIndentLevel :: int
  eolE :: string
  indentValue :: string

text \<open>The variables that the closures of \<^verbatim>\<open>formatJSON\<close> update.\<close>

record FormatVars =
  scannerF :: Scanner
  lineBreak :: bool
  hasError :: bool
  indentLevel :: int
  editOperations :: "Edit list"

definition newLineAndIndent :: "FormatEnv \<Rightarrow> FormatVars \<Rightarrow> string" where
  "newLineAndIndent env v = eolE env @ repeat (indentValue env) (initialIndentLevel env + indentLevel v)"


text \<open>The closure \<^verbatim>\<open>scanNext\<close>: its \<^verbatim>\<open>while\<close> loop over trivia, then the function.\<close>

function skipTrivia :: "Scanner \<Rightarrow> bool \<Rightarrow> Scanner \<times> bool" where
  "skipTrivia sc lb =
     (if token sc = Trivia \<or> token sc = LineBreakTrivia
      then skipTrivia (scan sc) (lb \<or> token sc = LineBreakTrivia)
      else (sc, lb))"
  by pat_completeness auto
termination
proof (relation "measure (\<lambda>(sc, lb). nat (int (length (scanText sc)) - pos sc) * 2
                          + (if token sc = Trivia \<or> token sc = LineBreakTrivia then 1 else 0))",
       goal_cases)
  case 1
  show ?case by simp
next
  case (2 sc lb)
  show ?case
  proof (cases "pos sc < int (length (scanText sc))")
    case True
    then show ?thesis using scan_advances[of sc] 2 by (auto simp: scanText_scan)
  next
    case False
    then show ?thesis using scan_at_end[of sc] 2 by (auto simp: scanText_scan)
  qed
qed

declare skipTrivia.simps [simp del]

definition scanNext :: "FormatVars \<Rightarrow> SyntaxKind \<times> FormatVars" where
  "scanNext v =
     (let r = skipTrivia (scan (scannerF v)) False; sc = fst r
      in (token sc,
          v\<lparr>scannerF := sc, lineBreak := snd r,
            hasError := (token sc = Unknown \<or> getTokenError sc \<noteq> ScanError_None)\<rparr>))"

lemma scannerF_scanNext: "scannerF (snd (scanNext v)) = fst (skipTrivia (scan (scannerF v)) False)"
  by (simp add: scanNext_def Let_def)

lemma fst_scanNext: "fst (scanNext v) = token (scannerF (snd (scanNext v)))"
  by (simp add: scanNext_def Let_def)

definition addEdit :: "FormatEnv \<Rightarrow> string \<Rightarrow> int \<Rightarrow> int \<Rightarrow> FormatVars \<Rightarrow> FormatVars" where
  "addEdit env txt startOffset endOffset v =
     (if \<not> hasError v \<and> startOffset < rangeEnd env \<and> endOffset > rangeStart env \<and>
         substring (documentText env) startOffset endOffset \<noteq> txt
      then v\<lparr>editOperations := editOperations v @
                 [\<lparr>offsetE = startOffset, lengthE = endOffset - startOffset, content = txt\<rparr>]\<rparr>
      else v)"


subsection \<open>Placeholder detection in the formatter\<close>

text \<open>The objects \<^verbatim>\<open>{ startIndex, endIndex }\<close> on the stack of \<^verbatim>\<open>getPostmanVariablePosition\<close>;
  \<^verbatim>\<open>endIndex\<close> is \<^verbatim>\<open>null\<close> until the object is matched.\<close>

record Popped =
  startIndexP :: int
  endIndexP :: "int option"

fun popSecond :: "Popped \<Rightarrow> Popped list \<Rightarrow> Popped option \<times> Popped list" where
  "popSecond firstPop [] = (None, [])"
| "popSecond firstPop (secondPop # stack) =
     (if startIndexP firstPop = startIndexP secondPop + 1 then (Some secondPop, stack)
      else popSecond secondPop stack)"

definition popFirst :: "Popped list \<Rightarrow> Popped option \<times> Popped list" where
  "popFirst stack = (case stack of [] \<Rightarrow> (None, [])
                     | firstPop # stack' \<Rightarrow> popSecond firstPop stack')"

text \<open>
  The second \<^verbatim>\<open>while\<close> loop of \<^verbatim>\<open>getPostmanVariablePosition\<close>.  The pair
  \<^verbatim>\<open>(minStartIndex, maxEndIndex)\<close> is \<open>None\<close> while it is \<^verbatim>\<open>(Infinity, -Infinity)\<close>.
\<close>

function matchBraces ::
  "string \<Rightarrow> int \<Rightarrow> nat \<Rightarrow> Popped list \<Rightarrow> Popped list \<Rightarrow> (int \<times> int) option
     \<Rightarrow> Popped list \<times> (int \<times> int) option" where
  "matchBraces t startPosition p stack matched bounds =
     (if p < length t then
        (if t ! p = CHR ''{'' then
           matchBraces t startPosition (p + 1)
             (\<lparr>startIndexP = startPosition + int p, endIndexP = None\<rparr> # stack) matched bounds
         else if t ! p = CHR ''}'' \<and> p + 1 < length t \<and> t ! (p + 1) = CHR ''}'' then
           (case popFirst stack of
              (Some toBeInsertedPop, stack') \<Rightarrow>
                (let e = startPosition + int p + 1;
                     s = startIndexP toBeInsertedPop
                 in matchBraces t startPosition (p + 2) stack'
                      (matched @ [toBeInsertedPop\<lparr>endIndexP := Some e\<rparr>])
                      (case bounds of None \<Rightarrow> Some (s, e)
                                    | Some (mn, mx) \<Rightarrow> Some (min mn s, max mx e)))
            | (None, stack') \<Rightarrow> matchBraces t startPosition (p + 1) stack' matched bounds)
         else matchBraces t startPosition (p + 1) stack matched bounds)
      else (matched, bounds))"
  by pat_completeness auto
termination
  by (relation "measure (\<lambda>(t, sp, p, stack, matched, bounds). length t - p)") auto

declare matchBraces.simps [simp del]

record VariablePosition =
  startIndexV :: int
  endIndexV :: int

definition lookaheadText :: "string \<Rightarrow> string" where
  "lookaheadText textFromCurrentPosition =
     takeWhile (\<lambda>scanned. scanned \<noteq> CHR '':'' \<and> scanned \<noteq> CHR '','' \<and> scanned \<noteq> CHR '']'' \<and>
                          \<not> isEOL [scanned] 0)
       textFromCurrentPosition"

definition getPostmanVariablePosition ::
  "FormatEnv \<Rightarrow> FormatVars \<Rightarrow> VariablePosition option \<times> FormatVars" where
  "getPostmanVariablePosition env v =
     (let startPosition = getTokenOffset (scannerF v) + formatTextStart env - 1;
          textFromCurrentPosition = substringFrom (formatText env) startPosition;
          t = lookaheadText textFromCurrentPosition
      in if t = [] then (None, v)
         else
           (case matchBraces t startPosition 0 [] [] None of
              (matched, bounds) \<Rightarrow>
                if matched \<noteq> [] then
                  (case bounds of
                     None \<Rightarrow> (None, v)
                   | Some (minStartIndex, maxEndIndex) \<Rightarrow>
                       if minStartIndex \<noteq> startPosition then (None, v)
                       else (Some \<lparr>startIndexV = startPosition, endIndexV = maxEndIndex\<rparr>,
                             v\<lparr>scannerF := scan (setPosition (scannerF v) maxEndIndex)\<rparr>))
                else (None, v)))"

subsection \<open>The main loop of the formatter\<close>

lemma skipTrivia_props:
  "pos sc \<le> pos (fst (skipTrivia sc lb)) \<and> scanText (fst (skipTrivia sc lb)) = scanText sc"
proof (induction sc lb rule: skipTrivia.induct)
  case (1 sc lb)
  show ?case
  proof (cases "token sc = Trivia \<or> token sc = LineBreakTrivia")
    case True
    then show ?thesis
      using 1 scan_mono[of sc]
      by (subst skipTrivia.simps, subst (2) skipTrivia.simps) (simp add: scanText_scan)
  next
    case False
    then show ?thesis by (simp add: skipTrivia.simps)
  qed
qed

lemma scanNext_scanner:
  "scanText (scannerF (snd (scanNext v))) = scanText (scannerF v) \<and>
   pos (scannerF v) \<le> pos (scannerF (snd (scanNext v))) \<and>
   (pos (scannerF v) < int (length (scanText (scannerF v)))
      \<longrightarrow> pos (scannerF v) < pos (scannerF (snd (scanNext v)))) \<and>
   (int (length (scanText (scannerF v))) \<le> pos (scannerF v) \<longrightarrow> fst (scanNext v) = EOF)"
proof -
  let ?sc = "scan (scannerF v)"
  let ?r = "fst (skipTrivia ?sc False)"
  have a: "pos ?sc \<le> pos ?r" and b: "scanText ?r = scanText (scannerF v)"
    using skipTrivia_props[of ?sc False] by (simp_all add: scanText_scan)
  have c: "?r = ?sc \<and> token ?sc = EOF"
    if "int (length (scanText (scannerF v))) \<le> pos (scannerF v)"
    using scan_at_end[of "scannerF v"] that by (simp add: skipTrivia.simps)
  have d: "pos (scannerF v) < pos ?r" if "pos (scannerF v) < int (length (scanText (scannerF v)))"
    using a scan_advances[OF that] by linarith
  have e: "pos (scannerF v) \<le> pos ?r"
    using a scan_mono[of "scannerF v"] by linarith
  show ?thesis
    unfolding fst_scanNext scannerF_scanNext using b c d e by metis
qed

lemma scannerF_addEdit: "scannerF (addEdit env txt a b v) = scannerF v"
  by (simp add: addEdit_def)

text \<open>The inner \<^verbatim>\<open>while\<close> loop over comments that follow on the same line.\<close>

function commentLoop ::
  "FormatEnv \<Rightarrow> FormatVars \<Rightarrow> int \<Rightarrow> string \<Rightarrow> SyntaxKind
     \<Rightarrow> FormatVars \<times> int \<times> string \<times> SyntaxKind" where
  "commentLoop env v firstTokenEnd replaceContent secondToken =
     (if \<not> lineBreak v \<and> (secondToken = LineCommentTrivia \<or> secondToken = BlockCommentTrivia) then
        (let commentTokenStart = getTokenOffset (scannerF v) + formatTextStart env;
             v1 = addEdit env '' '' firstTokenEnd commentTokenStart v;
             firstTokenEnd' = getTokenOffset (scannerF v1) + getTokenLength (scannerF v1)
                                + formatTextStart env;
             replaceContent' = (if secondToken = LineCommentTrivia then newLineAndIndent env v1
                                else [])
         in commentLoop env (snd (scanNext v1)) firstTokenEnd' replaceContent' (fst (scanNext v1)))
      else (v, firstTokenEnd, replaceContent, secondToken))"
  by pat_completeness auto
termination
proof (relation "measure (\<lambda>(env, v, fte, rc, secondToken).
          nat (int (length (scanText (scannerF v))) - pos (scannerF v)) * 2
          + (if secondToken = LineCommentTrivia \<or> secondToken = BlockCommentTrivia then 1 else 0))",
       goal_cases)
  case 1
  show ?case by simp
next
  case (2 env v firstTokenEnd replaceContent secondToken x xa xb xc)
  let ?v1 = "addEdit env '' '' firstTokenEnd x v"
  have sc: "scannerF ?v1 = scannerF v" by (rule scannerF_addEdit)
  show ?case
  proof (cases "pos (scannerF v) < int (length (scanText (scannerF v)))")
    case True
    then show ?thesis using scanNext_scanner[of ?v1] 2 sc by auto
  next
    case False
    then show ?thesis using scanNext_scanner[of ?v1] 2 sc by auto
  qed
qed

declare commentLoop.simps [simp del]


definition isComment :: "SyntaxKind \<Rightarrow> bool" where
  "isComment k = (k = LineCommentTrivia \<or> k = BlockCommentTrivia)"

text \<open>The shared tail of the \<^verbatim>\<open>switch (firstToken)\<close> cases for values and closing tokens.\<close>

definition afterValue :: "SyntaxKind \<Rightarrow> FormatVars \<Rightarrow> string \<Rightarrow> FormatVars \<times> string" where
  "afterValue secondToken v replaceContent =
     (if isComment secondToken then (v, '' '')
      else if secondToken \<noteq> CommaToken \<and> secondToken \<noteq> EOF then (v\<lparr>hasError := True\<rparr>, replaceContent)
      else (v, replaceContent))"

text \<open>\<^verbatim>\<open>switch (firstToken)\<close>.\<close>

definition firstTokenSwitch ::
  "FormatEnv \<Rightarrow> SyntaxKind \<Rightarrow> SyntaxKind \<Rightarrow> FormatVars \<Rightarrow> string \<Rightarrow> FormatVars \<times> string" where
  "firstTokenSwitch env firstToken secondToken v replaceContent =
     (let indented = v\<lparr>indentLevel := indentLevel v + 1\<rparr>
      in case firstToken of
           OpenBracketToken \<Rightarrow> (indented, newLineAndIndent env indented)
         | OpenBraceToken \<Rightarrow> (indented, newLineAndIndent env indented)
         | CommaToken \<Rightarrow> (v, newLineAndIndent env v)
         | LineCommentTrivia \<Rightarrow> (v, newLineAndIndent env v)
         | BlockCommentTrivia \<Rightarrow> (v, if lineBreak v then newLineAndIndent env v else '' '')
         | ColonToken \<Rightarrow> (v, '' '')
         | StringLiteral \<Rightarrow>
             if secondToken = ColonToken then (v, [])
             else afterValue secondToken v replaceContent
         | NullKeyword \<Rightarrow> afterValue secondToken v replaceContent
         | TrueKeyword \<Rightarrow> afterValue secondToken v replaceContent
         | FalseKeyword \<Rightarrow> afterValue secondToken v replaceContent
         | NumericLiteral \<Rightarrow> afterValue secondToken v replaceContent
         | CloseBraceToken \<Rightarrow> afterValue secondToken v replaceContent
         | CloseBracketToken \<Rightarrow> afterValue secondToken v replaceContent
         | Unknown \<Rightarrow> (v\<lparr>hasError := True\<rparr>, replaceContent)
         | _ \<Rightarrow> (v, replaceContent))"

text \<open>The \<^verbatim>\<open>if\<close> cascade on \<^verbatim>\<open>secondToken\<close> that fixes \<^verbatim>\<open>replaceContent\<close>.\<close>

definition replacement ::
  "FormatEnv \<Rightarrow> SyntaxKind \<Rightarrow> SyntaxKind \<Rightarrow> FormatVars \<Rightarrow> string \<Rightarrow> FormatVars \<times> string" where
  "replacement env firstToken secondToken v replaceContent =
     (let dedented = v\<lparr>indentLevel := indentLevel v - 1\<rparr>
      in if secondToken = CloseBraceToken then
           (if firstToken \<noteq> OpenBraceToken then (dedented, newLineAndIndent env dedented)
            else (v, replaceContent))
         else if secondToken = CloseBracketToken then
           (if firstToken \<noteq> OpenBracketToken then (dedented, newLineAndIndent env dedented)
            else (v, replaceContent))
         else
           (let r = firstTokenSwitch env firstToken secondToken v replaceContent
            in if lineBreak (fst r) \<and> isComment secondToken
               then (fst r, newLineAndIndent env (fst r))
               else r))"

text \<open>
  The search for a placeholder at the head of an iteration: \<^verbatim>\<open>firstToken\<close>,
  \<^verbatim>\<open>firstTokenEnd\<close>, \<^verbatim>\<open>secondToken\<close> and the closure variables after it.
\<close>

definition placeholderSearch ::
  "FormatEnv \<Rightarrow> SyntaxKind \<Rightarrow> int \<Rightarrow> SyntaxKind \<Rightarrow> FormatVars
     \<Rightarrow> SyntaxKind \<times> int \<times> SyntaxKind \<times> FormatVars" where
  "placeholderSearch env firstToken firstTokenEnd secondToken v =
     (if \<not> lineBreak v \<and> firstToken = OpenBraceToken \<and> firstToken = secondToken then
        (case getPostmanVariablePosition env v of
           (Some position, v') \<Rightarrow>
             (StringLiteral, endIndexV position + 1, fst (scanNext v'), snd (scanNext v'))
         | (None, v') \<Rightarrow> (firstToken, firstTokenEnd, secondToken, v'))
      else (firstToken, firstTokenEnd, secondToken, v))"

text \<open>One iteration of \<^verbatim>\<open>while (firstToken !== EOF)\<close>: the closure variables and the next
  \<^verbatim>\<open>firstToken\<close>.\<close>

definition formatStep :: "FormatEnv \<Rightarrow> FormatVars \<Rightarrow> SyntaxKind \<Rightarrow> FormatVars \<times> SyntaxKind" where
  "formatStep env v firstToken =
     (let firstTokenEnd = getTokenOffset (scannerF v) + getTokenLength (scannerF v)
                            + formatTextStart env;
          r = scanNext v
      in case placeholderSearch env firstToken firstTokenEnd (fst r) (snd r) of
           (firstToken1, firstTokenEnd1, secondToken1, v1) \<Rightarrow>
             (case commentLoop env v1 firstTokenEnd1 [] secondToken1 of
                (v2, firstTokenEnd2, replaceContent2, secondToken2) \<Rightarrow>
                  (case replacement env firstToken1 secondToken2 v2 replaceContent2 of
                     (v3, replaceContent3) \<Rightarrow>
                       (let secondTokenStart = getTokenOffset (scannerF v3) + formatTextStart env
                        in (addEdit env replaceContent3 firstTokenEnd2 secondTokenStart v3,
                            secondToken2)))))"

text \<open>The loop runs until the scanner delivers \<^verbatim>\<open>EOF\<close>; a run that never does is \<open>None\<close>.\<close>

partial_function (option) formatLoop ::
  "FormatEnv \<Rightarrow> FormatVars \<Rightarrow> SyntaxKind \<Rightarrow> Edit list option" where
  "formatLoop env v firstToken =
     (if firstToken \<noteq> EOF
      then formatLoop env (fst (formatStep env v firstToken)) (snd (formatStep env v firstToken))
      else Some (editOperations v))"

declare formatLoop.simps [code]

definition formatEnv :: "string \<Rightarrow> Range option \<Rightarrow> FormattingOptions \<Rightarrow> FormatEnv" where
  "formatEnv docText rng options =
     (let eol' = getEOL options docText;
          indentValue' = (if insertSpaces options = Some True
                          then repeat '' '' (tabSizeOr4 options) else [tab])
      in case rng of
           Some r \<Rightarrow>
             (let rangeStart' = offsetR r;
                  rangeEnd' = rangeStart' + lengthR r;
                  formatTextStart' = lineStart docText rangeStart';
                  endOffset = lineEnd docText rangeEnd';
                  formatText' = substring docText formatTextStart' endOffset
              in \<lparr>documentText = docText, formatText = formatText',
                   formatTextStart = formatTextStart',
                   rangeStart = rangeStart', rangeEnd = rangeEnd',
                   initialIndentLevel = computeIndentLevel formatText' options,
                   eolE = eol', indentValue = indentValue'\<rparr>)
         | None \<Rightarrow>
             \<lparr>documentText = docText, formatText = docText, formatTextStart = 0,
                rangeStart = 0, rangeEnd = int (length docText),
                initialIndentLevel = 0, eolE = eol', indentValue = indentValue'\<rparr>)"

definition formatJSON :: "string \<Rightarrow> Range option \<Rightarrow> FormattingOptions \<Rightarrow> Edit list option" where
  "formatJSON docText rng options =
     (let env = formatEnv docText rng options;
          v0 = \<lparr>scannerF = createScanner (formatText env), lineBreak = False, hasError = False,
                indentLevel = 0, editOperations = []\<rparr>;
          firstToken = fst (scanNext v0);
          v1 = snd (scanNext v0);
          v2 = (if firstToken \<noteq> EOF
                then addEdit env (repeat (indentValue env) (initialIndentLevel env))
                       (formatTextStart env) (getTokenOffset (scannerF v1) + formatTextStart env) v1
                else v1)
      in formatLoop env v2 firstToken)"

text \<open>
  \<^verbatim>\<open>format(d, r, o)\<close> on offsets: the document is its text, the range is already converted
  by \<^verbatim>\<open>d.offsetAt\<close>, and the edits are returned before \<^verbatim>\<open>d.positionAt\<close> maps them to
  positions.  The options handed on have \<^verbatim>\<open>eol: '\n'\<close> whatever the caller supplied.
\<close>

definition formatOptions :: "FormattingOptions option \<Rightarrow> FormattingOptions" where
  "formatOptions o' =
     \<lparr>tabSize = (case o' of Some opts \<Rightarrow> tabSize opts | None \<Rightarrow> Some 4),
      insertSpaces = (case o' of Some opts \<Rightarrow> insertSpaces opts | None \<Rightarrow> Some True),
      eol = Some [lineFeed]\<rparr>"

definition format :: "string \<Rightarrow> Range option \<Rightarrow> FormattingOptions option \<Rightarrow> Edit list option" where
  "format d r o' = formatJSON d r (formatOptions o')"


section \<open>The delimiter search of the double-brace path\<close>

lemma indexOf_suffix: "0 \<le> indexOf (xs @ d) d"
proof (induction xs)
  case Nil
  show ?case by (simp add: indexOf.simps)
next
  case (Cons x xs)
  then show ?case by (subst indexOf.simps) (simp add: Let_def)
qed

lemma indexOf_ge: "- 1 \<le> indexOf s d"
proof (induction s)
  case Nil
  show ?case by (simp add: indexOf.simps)
next
  case (Cons x xs)
  then show ?case by (subst indexOf.simps) (simp add: Let_def)
qed

lemma leastIndexLoop_Some:
  "0 \<le> l \<Longrightarrow> \<exists>i. leastIndexLoop s ds (Some l) = Some i \<and> 0 \<le> i"
proof (induction ds arbitrary: l)
  case Nil
  then show ?case by simp
next
  case (Cons d ds)
  show ?case
    using Cons.IH[of l] Cons.IH[of "indexOf s d"] Cons.prems
    by (simp add: Let_def)
qed

lemma leastIndexLoop_found:
  "d \<in> set ds \<Longrightarrow> 0 \<le> indexOf s d \<Longrightarrow> \<exists>i. leastIndexLoop s ds None = Some i \<and> 0 \<le> i"
proof (induction ds)
  case Nil
  then show ?case by simp
next
  case (Cons d' ds)
  show ?case
  proof (cases "0 \<le> indexOf s d'")
    case True
    then show ?thesis using leastIndexLoop_Some[of "indexOf s d'" s ds] by (simp add: Let_def)
  next
    case False
    then have "d \<noteq> d'" using Cons.prems by auto
    then show ?thesis using Cons False by (simp add: Let_def)
  qed
qed

lemma findClosestDelimiter_found:
  "d \<in> set ds \<Longrightarrow> 0 \<le> indexOf s d \<Longrightarrow>
   \<exists>i. 0 \<le> i \<and> findClosestDelimiter Writable s ds = Inr i"
  using leastIndexLoop_found[of d ds s] by (auto simp: findClosestDelimiter_def)

lemma findClosestDelimiter_Undeclared:
  "findClosestDelimiter Undeclared s ds = Inl ReferenceError"
  by (simp add: findClosestDelimiter_def)

lemma lookahead_delimiter_found:
  "\<exists>i. 0 \<le> i \<and>
       findClosestDelimiter Writable (stringFromDoubleBraces line sc) doubleBraceDelimiters = Inr i"
  by (rule findClosestDelimiter_found[of "[lineFeed]"])
     (simp_all add: doubleBraceDelimiters_def stringFromDoubleBraces_def indexOf_suffix)


text \<open>
  Claim C10.  In the tokenizer's double-brace path the lookahead string ends in a line feed
  and the line feed is one of the delimiters searched for.  So, for every line and every
  scanner position, a call of \<^verbatim>\<open>findClosestDelimiter\<close> that returns gives a non-negative index,
  and it returns wherever its assignment to the global \<^verbatim>\<open>length\<close> is accepted; where there is
  no such global it throws a \<^verbatim>\<open>ReferenceError\<close> and the path is left with that error.  Hence
  the branch taken when no delimiter is found, the only one of that path that gives the
  second brace the scope of an object delimiter, is never taken: whenever the path is entered
  and returns, the second brace does not have that scope.
\<close>

theorem double_brace_delimiter_always_found:
  "last (stringFromDoubleBraces line sc) = lineFeed \<and>
   [lineFeed] \<in> set doubleBraceDelimiters \<and>
   (\<exists>i. 0 \<le> i \<and>
        findClosestDelimiter g (stringFromDoubleBraces line sc) doubleBraceDelimiters =
          (case g of Writable \<Rightarrow> Inr i | Undeclared \<Rightarrow> Inl ReferenceError)) \<and>
   (openBracesCount v = 2 \<and> languageId = Some postman_json \<longrightarrow>
      openBraceCase Undeclared line languageId offset v = Inl ReferenceError) \<and>
   (openBracesCount v = 2 \<and> languageId = Some postman_json \<and>
      openBraceCase g line languageId offset v = Inr (v', l) \<longrightarrow> typeL l \<noteq> TOKEN_DELIM_OBJECT)"
proof -
  obtain i where i: "0 \<le> i"
    "findClosestDelimiter Writable (stringFromDoubleBraces line (scanner v)) doubleBraceDelimiters
       = Inr i"
    using lookahead_delimiter_found[of line "scanner v"] by blast
  have found: "\<exists>i. 0 \<le> i \<and>
        findClosestDelimiter g (stringFromDoubleBraces line sc) doubleBraceDelimiters =
          (case g of Writable \<Rightarrow> Inr i | Undeclared \<Rightarrow> Inl ReferenceError)"
    using lookahead_delimiter_found[of line sc]
    by (cases g) (auto simp: findClosestDelimiter_Undeclared)
  have thrown: "openBraceCase Undeclared line languageId offset v = Inl ReferenceError"
    if "openBracesCount v = 2" "languageId = Some postman_json"
    using that by (simp add: openBraceCase_def Let_def findClosestDelimiter_Undeclared)
  have empty: "typeL l = []"
    if "openBracesCount v = 2" "languageId = Some postman_json"
       "openBraceCase g line languageId offset v = Inr (v', l)"
  proof (cases g)
    case Writable
    then show ?thesis
      using that i
      by (auto simp: openBraceCase_def Let_def split: sum.splits if_splits option.splits)
  next
    case Undeclared
    then show ?thesis using that thrown by simp
  qed
  have scope: "typeL l \<noteq> TOKEN_DELIM_OBJECT"
    if "openBracesCount v = 2" "languageId = Some postman_json"
       "openBraceCase g line languageId offset v = Inr (v', l)"
    using empty[OF that] by (simp add: TOKEN_DELIM_OBJECT_def)
  have ends: "last (stringFromDoubleBraces line sc) = lineFeed"
    by (simp add: stringFromDoubleBraces_def)
  have searched: "[lineFeed] \<in> set doubleBraceDelimiters"
    by (simp add: doubleBraceDelimiters_def)
  show ?thesis
    using ends searched found thrown scope by blast
qed

theorem double_brace_delimiter_always_found_witness:
  "openBracesCount
     \<lparr>scanner = \<lparr>scanText = ''{{'', pos = 2, tokenOffset = 1, token = OpenBraceToken,
                   tokenError = ScanError_None\<rparr>,
      lastWasColonV = False, parentsV = None, openBracesCount = 2, adjustOffset = False,
      ret = \<lparr>tokens = [\<lparr>startIndex = 0, scopes = TOKEN_DELIM_OBJECT, endIndex = None\<rparr>],
             endState = (getInitialState :: unit JSONState)\<rparr>\<rparr> = 2 \<and>
   openBraceCase Undeclared ''{{'' (Some postman_json) 1
        \<lparr>scanner = \<lparr>scanText = ''{{'', pos = 2, tokenOffset = 1, token = OpenBraceToken,
                      tokenError = ScanError_None\<rparr>,
         lastWasColonV = False, parentsV = None, openBracesCount = 2, adjustOffset = False,
         ret = \<lparr>tokens = [\<lparr>startIndex = 0, scopes = TOKEN_DELIM_OBJECT, endIndex = None\<rparr>],
                endState = (getInitialState :: unit JSONState)\<rparr>\<rparr> = Inl ReferenceError \<and>
   (\<exists>v' l. openBraceCase Writable ''{{'' (Some postman_json) 1
        \<lparr>scanner = \<lparr>scanText = ''{{'', pos = 2, tokenOffset = 1, token = OpenBraceToken,
                      tokenError = ScanError_None\<rparr>,
         lastWasColonV = False, parentsV = None, openBracesCount = 2, adjustOffset = False,
         ret = \<lparr>tokens = [\<lparr>startIndex = 0, scopes = TOKEN_DELIM_OBJECT, endIndex = None\<rparr>],
                endState = (getInitialState :: unit JSONState)\<rparr>\<rparr> = Inr (v', l) \<and>
      typeL l \<noteq> TOKEN_DELIM_OBJECT)"
proof -
  let ?v = "\<lparr>scanner = \<lparr>scanText = ''{{'', pos = 2, tokenOffset = 1, token = OpenBraceToken,
                   tokenError = ScanError_None\<rparr>,
      lastWasColonV = False, parentsV = None, openBracesCount = 2, adjustOffset = False,
      ret = \<lparr>tokens = [\<lparr>startIndex = 0, scopes = TOKEN_DELIM_OBJECT, endIndex = None\<rparr>],
             endState = (getInitialState :: unit JSONState)\<rparr>\<rparr>"
  have "\<not> isl (openBraceCase Writable ''{{'' (Some postman_json) 1 ?v)"
    by code_simp
  then obtain v' l where "openBraceCase Writable ''{{'' (Some postman_json) 1 ?v = Inr (v', l)"
    by (cases "openBraceCase Writable ''{{'' (Some postman_json) 1 ?v") auto
  then show ?thesis
    using double_brace_delimiter_always_found
            [of "''{{''" "scanner ?v" Writable ?v "Some postman_json" 1 v' l]
    by simp
qed


section \<open>Equality of tokenizer states\<close>

text \<open>The sequence of Object/Array markers of a parent stack, top first.\<close>

fun stackTypes :: "ParentsStack option \<Rightarrow> JSONParent list" where
  "stackTypes None = []"
| "stackTypes (Some (ParentsStack p ty)) = ty # stackTypes p"

lemma equalsLoop_prefix:
  "equalsLoop a b \<longleftrightarrow> prefix (stackTypes a) (stackTypes b) \<or> prefix (stackTypes b) (stackTypes a)"
proof (induction a b rule: equalsLoop.induct)
  case (1 pa ta pb tb)
  then show ?case by auto
qed simp_all

text \<open>What \<^verbatim>\<open>ParentsStack.equals\<close> decides: both stacks are empty, or neither is and the markers
  of one are a leading part of the markers of the other.\<close>

lemma ParentsStack_equals_prefix:
  "ParentsStack_equals a b \<longleftrightarrow>
     (a = None \<and> b = None) \<or>
     (a \<noteq> None \<and> b \<noteq> None \<and>
      (prefix (stackTypes a) (stackTypes b) \<or> prefix (stackTypes b) (stackTypes a)))"
  by (auto simp: ParentsStack_equals_def equalsLoop_prefix)

text \<open>
  Claim C6 says that \<^verbatim>\<open>JSONState.equals\<close> holds exactly when the error codes, the colon flags
  and the marker sequences of the two parent stacks (lengths included) agree, so that states
  with stacks of different depth are never equal.  The loop of \<^verbatim>\<open>ParentsStack.equals\<close> stops
  as soon as one chain ends and then returns \<^verbatim>\<open>true\<close>.  The states reached at the end of the
  lines \<^verbatim>\<open>{\<close> and \<^verbatim>\<open>{ {\<close> have stacks of depth one and two, and \<^verbatim>\<open>equals\<close> accepts them.
\<close>

theorem equals_accepts_stacks_of_different_depth:
  "tokenize g True ''{'' (getInitialState :: unit JSONState) 0 None =
     Some (Inr \<lparr>tokens = [\<lparr>startIndex = 0, scopes = TOKEN_DELIM_OBJECT, endIndex = None\<rparr>],
                endState = \<lparr>stateData = None, scanError = Some ScanError_None,
                             lastWasColon = False,
                             parents = Some (ParentsStack None Object)\<rparr>\<rparr>) \<and>
   tokenize g True ''{ {'' (getInitialState :: unit JSONState) 0 None =
     Some (Inr \<lparr>tokens = [\<lparr>startIndex = 0, scopes = TOKEN_DELIM_OBJECT, endIndex = None\<rparr>,
                          \<lparr>startIndex = 1, scopes = [], endIndex = None\<rparr>,
                          \<lparr>startIndex = 2, scopes = TOKEN_DELIM_OBJECT, endIndex = None\<rparr>],
                endState = \<lparr>stateData = None, scanError = Some ScanError_None,
                             lastWasColon = False,
                             parents = Some (ParentsStack (Some (ParentsStack None Object)) Object)\<rparr>\<rparr>) \<and>
   stackTypes (Some (ParentsStack None Object)) = [Object] \<and>
   stackTypes (Some (ParentsStack (Some (ParentsStack None Object)) Object)) = [Object, Object] \<and>
   JSONState_equals
     (\<lparr>stateData = None, scanError = Some ScanError_None, lastWasColon = False,
       parents = Some (ParentsStack None Object)\<rparr> :: unit JSONState)
     \<lparr>stateData = None, scanError = Some ScanError_None, lastWasColon = False,
       parents = Some (ParentsStack (Some (ParentsStack None Object)) Object)\<rparr>"
  by code_simp

section \<open>The end-of-line string of the formatter\<close>

lemma firstEOL_dropWhile:
  "firstEOL t =
     (case dropWhile (\<lambda>c. c \<noteq> carriageReturn \<and> c \<noteq> lineFeed) t of
        [] \<Rightarrow> None
      | c # rest \<Rightarrow>
          Some (if c = lineFeed then [lineFeed]
                else if rest \<noteq> [] \<and> hd rest = lineFeed then [carriageReturn, lineFeed]
                else [carriageReturn]))"
  by (induction t) (auto simp: carriageReturn_def lineFeed_def)

text \<open>
  Claim C9 as the code has it.  The end-of-line string is fixed by the first line terminator
  of the document text, which may be \<^verbatim>\<open>\r\n\<close>, \<^verbatim>\<open>\n\<close> or a carriage return on its own (then
  the end-of-line string is \<^verbatim>\<open>\r\<close>).  Only a text without any carriage return or line feed
  falls back to the \<^verbatim>\<open>eol\<close> option, and to \<^verbatim>\<open>\n\<close> when that option is absent or empty.  This
  is the string every \<^verbatim>\<open>newLineAndIndent\<close> starts with.  The entry point \<^verbatim>\<open>format\<close> hands on
  \<^verbatim>\<open>eol: '\n'\<close> whatever its caller supplied.
\<close>

theorem getEOL_first_line_terminator:
  "getEOL options t =
     (case dropWhile (\<lambda>c. c \<noteq> carriageReturn \<and> c \<noteq> lineFeed) t of
        [] \<Rightarrow> (case eol options of
                 Some e \<Rightarrow> if e = [] then [lineFeed] else e
               | None \<Rightarrow> [lineFeed])
      | c # rest \<Rightarrow>
          if c = lineFeed then [lineFeed]
          else if rest \<noteq> [] \<and> hd rest = lineFeed then [carriageReturn, lineFeed]
          else [carriageReturn]) \<and>
   eolE (formatEnv t rng options) = getEOL options t \<and>
   newLineAndIndent (formatEnv t rng options) v =
     getEOL options t @ repeat (indentValue (formatEnv t rng options))
                          (initialIndentLevel (formatEnv t rng options) + indentLevel v) \<and>
   eol (formatOptions o') = Some [lineFeed]"
proof -
  have "eolE (formatEnv t rng options) = getEOL options t"
    by (simp add: formatEnv_def Let_def split: option.splits)
  moreover define d where "d = dropWhile (\<lambda>c. c \<noteq> carriageReturn \<and> c \<noteq> lineFeed) t"
  moreover have "getEOL options t =
     (case d of
        [] \<Rightarrow> (case eol options of
                 Some e \<Rightarrow> if e = [] then [lineFeed] else e
               | None \<Rightarrow> [lineFeed])
      | c # rest \<Rightarrow>
          if c = lineFeed then [lineFeed]
          else if rest \<noteq> [] \<and> hd rest = lineFeed then [carriageReturn, lineFeed]
          else [carriageReturn])"
    unfolding getEOL_def firstEOL_dropWhile d_def[symmetric] by (cases d) simp_all
  ultimately show ?thesis
    by (simp add: newLineAndIndent_def formatOptions_def)
qed

text \<open>
  Claim C9 as stated fails on a text whose first line terminator is a carriage return on its
  own: for \<^verbatim>\<open>[1,\r2]\<close> with the option \<^verbatim>\<open>eol: '\n'\<close> the end-of-line string is \<^verbatim>\<open>\r\<close>, which is
  neither \<^verbatim>\<open>\r\n\<close> nor \<^verbatim>\<open>\n\<close> nor the option, and the edits carry it.
\<close>

theorem getEOL_lone_carriage_return:
  "getEOL \<lparr>tabSize = Some 4, insertSpaces = Some True, eol = Some [lineFeed]\<rparr>
     [CHR ''['', CHR ''1'', CHR '','', carriageReturn, CHR ''2'', CHR '']'']
     \<notin> {[carriageReturn, lineFeed], [lineFeed]} \<and>
   formatJSON [CHR ''['', CHR ''1'', CHR '','', carriageReturn, CHR ''2'', CHR '']''] None
     \<lparr>tabSize = Some 4, insertSpaces = Some True, eol = Some [lineFeed]\<rparr> =
     Some [\<lparr>offsetE = 1, lengthE = 0, content = carriageReturn # ''    ''\<rparr>,
           \<lparr>offsetE = 3, lengthE = 1, content = carriageReturn # ''    ''\<rparr>,
           \<lparr>offsetE = 5, lengthE = 0, content = [carriageReturn]\<rparr>]"
  by code_simp

section \<open>Placeholders on concrete lines\<close>

text \<open>The scope \<^verbatim>\<open>tokenize\<close> gives a string literal: a value after a colon or inside an array, a
  property name otherwise.\<close>

definition stringScope :: "bool \<Rightarrow> ParentsStack option \<Rightarrow> string" where
  "stringScope lwc ps =
     (if lwc \<or> (case ps of Some p \<Rightarrow> type p | None \<Rightarrow> Object) = Array
      then TOKEN_VALUE_STRING else TOKEN_PROPERTY_NAME)"

abbreviation scannerAt :: "string \<Rightarrow> int \<Rightarrow> int \<Rightarrow> SyntaxKind \<Rightarrow> Scanner" where
  "scannerAt t p off k \<equiv>
     \<lparr>scanText = t, pos = p, tokenOffset = off, token = k, tokenError = ScanError_None\<rparr>"

abbreviation endStateOf :: "'s JSONState \<Rightarrow> bool \<Rightarrow> ParentsStack option \<Rightarrow> 's JSONState" where
  "endStateOf state lwc ps \<equiv>
     \<lparr>stateData = stateData state, scanError = Some ScanError_None, lastWasColon = lwc,
      parents = ps\<rparr>"

abbreviation plainToken :: "int \<Rightarrow> string \<Rightarrow> IToken" where
  "plainToken i sc \<equiv> \<lparr>startIndex = i, scopes = sc, endIndex = None\<rparr>"

lemmas stepDefs = tokenizeStep_def Let_def getPosition_def kindSwitch_def stringLiteralCase_def
  openBraceCase_def getTokenOffset_def getTokenLength_def commentSwitch_def getTokenError_def
  setPosition_def ParentsStack_pop_def ParentsStack_push_def

subsection \<open>A placeholder as a whole property value\<close>

definition envVarLine :: string where \<open>envVarLine = ''"k": {{envVar}}''\<close>

lemma envVar_scan:
  "scan (scannerAt envVarLine 0 0 Unknown) = scannerAt envVarLine 3 0 StringLiteral"
  "scan (scannerAt envVarLine 3 0 StringLiteral) = scannerAt envVarLine 4 3 ColonToken"
  "scan (scannerAt envVarLine 4 3 ColonToken) = scannerAt envVarLine 5 4 Trivia"
  "scan (scannerAt envVarLine 5 4 Trivia) = scannerAt envVarLine 6 5 OpenBraceToken"
  "scan (scannerAt envVarLine 6 5 OpenBraceToken) = scannerAt envVarLine 7 6 OpenBraceToken"
  "scan (scannerAt envVarLine 15 0 Unknown) = scannerAt envVarLine 15 15 EOF"
  by code_simp+

lemma envVar_key: "createPostmanVariableScanner (substr envVarLine 1 1) 1 iv True = Inr []"
  by (cases iv; code_simp)

lemma envVar_delimiter:
  "findClosestDelimiter Writable
     (stringFromDoubleBraces envVarLine (scannerAt envVarLine 7 6 OpenBraceToken))
     doubleBraceDelimiters = Inr 10"
  by code_simp

lemma envVar_detection:
  "createPostmanVariableScanner
     (substring (stringFromDoubleBraces envVarLine (scannerAt envVarLine 7 6 OpenBraceToken)) 0 10)
     5 False False =
   Inr [\<lparr>startIndex = 5, scopes = TOKEN_POSTMAN_VARIABLE, endIndex = Some 14\<rparr>]"
  by code_simp

lemma envVar_step0:
  "tokenizeStep g comments envVarLine state 0 (Some postman_json) 0
     \<lparr>scanner = scannerAt envVarLine 0 0 Unknown, lastWasColonV = lwc, parentsV = ps,
      openBracesCount = obc, adjustOffset = ao, ret = r\<rparr> =
   Continue
     \<lparr>scanner = scannerAt envVarLine 3 0 StringLiteral, lastWasColonV = False, parentsV = ps,
      openBracesCount = 0, adjustOffset = False,
      ret = \<lparr>tokens = tokens r @ [plainToken 0 (stringScope lwc ps)],
             endState = endStateOf state False ps\<rparr>\<rparr>"
  by (simp add: stepDefs envVar_scan envVar_key stringScope_def)

lemma envVar_step1:
  "tokenizeStep g comments envVarLine state 0 (Some postman_json) 0
     \<lparr>scanner = scannerAt envVarLine 3 0 StringLiteral, lastWasColonV = lwc, parentsV = ps,
      openBracesCount = obc, adjustOffset = ao, ret = r\<rparr> =
   Continue
     \<lparr>scanner = scannerAt envVarLine 4 3 ColonToken, lastWasColonV = True, parentsV = ps,
      openBracesCount = 0, adjustOffset = False,
      ret = \<lparr>tokens = tokens r @ [plainToken 3 TOKEN_DELIM_COLON],
             endState = endStateOf state True ps\<rparr>\<rparr>"
  by (simp add: stepDefs envVar_scan)

lemma envVar_step2:
  "tokenizeStep g comments envVarLine state 0 (Some postman_json) 0
     \<lparr>scanner = scannerAt envVarLine 4 3 ColonToken, lastWasColonV = lwc, parentsV = ps,
      openBracesCount = obc, adjustOffset = ao, ret = r\<rparr> =
   Continue
     \<lparr>scanner = scannerAt envVarLine 5 4 Trivia, lastWasColonV = lwc, parentsV = ps,
      openBracesCount = 0, adjustOffset = False,
      ret = \<lparr>tokens = tokens r @ [plainToken 4 []], endState = endStateOf state lwc ps\<rparr>\<rparr>"
  by (simp add: stepDefs envVar_scan)

lemma envVar_step3:
  "tokenizeStep g comments envVarLine state 0 (Some postman_json) 0
     \<lparr>scanner = scannerAt envVarLine 5 4 Trivia, lastWasColonV = lwc, parentsV = ps,
      openBracesCount = 0, adjustOffset = ao, ret = r\<rparr> =
   Continue
     \<lparr>scanner = scannerAt envVarLine 6 5 OpenBraceToken, lastWasColonV = False,
      parentsV = Some (ParentsStack ps Object), openBracesCount = 1, adjustOffset = False,
      ret = \<lparr>tokens = tokens r @ [plainToken 5 TOKEN_DELIM_OBJECT],
             endState = endStateOf state False (Some (ParentsStack ps Object))\<rparr>\<rparr>"
  by (simp add: stepDefs envVar_scan)

lemma envVar_step4:
  "tokenizeStep Writable comments envVarLine state 0 (Some postman_json) 0
     \<lparr>scanner = scannerAt envVarLine 6 5 OpenBraceToken, lastWasColonV = False,
      parentsV = Some (ParentsStack ps Object), openBracesCount = 1, adjustOffset = ao, ret = r\<rparr> =
   Continue
     \<lparr>scanner = scannerAt envVarLine 15 0 Unknown, lastWasColonV = False, parentsV = ps,
      openBracesCount = 2, adjustOffset = False,
      ret = \<lparr>tokens = butlast (tokens r) @
                        [\<lparr>startIndex = 5, scopes = TOKEN_POSTMAN_VARIABLE, endIndex = Some 14\<rparr>],
             endState = endStateOf state False ps\<rparr>\<rparr>"
  by (simp add: stepDefs envVar_scan envVar_delimiter envVar_detection)

lemma envVar_step5:
  "tokenizeStep g comments envVarLine state 0 (Some postman_json) 0
     \<lparr>scanner = scannerAt envVarLine 15 0 Unknown, lastWasColonV = lwc, parentsV = ps,
      openBracesCount = obc, adjustOffset = ao, ret = r\<rparr> = Exit (Inr r)"
  by (simp add: stepDefs envVar_scan)

lemma envVar_tokenize:
  assumes "insertedPrefix (scanError state) = []"
  shows "tokenize Writable comments envVarLine state 0 (Some postman_json) =
    Some (Inr \<lparr>tokens =
                 [plainToken 0 (stringScope (lastWasColon state) (parents state)),
                  plainToken 3 TOKEN_DELIM_COLON,
                  plainToken 4 [],
                  \<lparr>startIndex = 5, scopes = TOKEN_POSTMAN_VARIABLE, endIndex = Some 14\<rparr>],
               endState = endStateOf state False (parents state)\<rparr>)"
  unfolding tokenize_def assms Let_def createScanner_def
  apply (simp only: append_Nil list.size of_nat_0)
  apply (subst tokenizeLoop.simps, simp only: envVar_step0 iteration.case)
  apply (subst tokenizeLoop.simps, simp only: envVar_step1 iteration.case)
  apply (subst tokenizeLoop.simps, simp only: envVar_step2 iteration.case)
  apply (subst tokenizeLoop.simps, simp only: envVar_step3 iteration.case)
  apply (subst tokenizeLoop.simps, simp only: envVar_step4 iteration.case)
  apply (subst tokenizeLoop.simps, simp only: envVar_step5 iteration.case)
  apply simp
  done

text \<open>The same line with the number \<^verbatim>\<open>0\<close>, a single atomic value token, in place of the
  placeholder.\<close>

definition atomicValueLine :: string where \<open>atomicValueLine = ''"k": 0''\<close>

lemma atomicValue_scan:
  "scan (scannerAt atomicValueLine 0 0 Unknown) = scannerAt atomicValueLine 3 0 StringLiteral"
  "scan (scannerAt atomicValueLine 3 0 StringLiteral) = scannerAt atomicValueLine 4 3 ColonToken"
  "scan (scannerAt atomicValueLine 4 3 ColonToken) = scannerAt atomicValueLine 5 4 Trivia"
  "scan (scannerAt atomicValueLine 5 4 Trivia) = scannerAt atomicValueLine 6 5 NumericLiteral"
  "scan (scannerAt atomicValueLine 6 5 NumericLiteral) = scannerAt atomicValueLine 6 6 EOF"
  by code_simp+

lemma atomicValue_key:
  "createPostmanVariableScanner (substr atomicValueLine 1 1) 1 iv True = Inr []"
  by (cases iv; code_simp)

lemma atomicValue_step0:
  "tokenizeStep g comments atomicValueLine state 0 (Some postman_json) 0
     \<lparr>scanner = scannerAt atomicValueLine 0 0 Unknown, lastWasColonV = lwc, parentsV = ps,
      openBracesCount = obc, adjustOffset = ao, ret = r\<rparr> =
   Continue
     \<lparr>scanner = scannerAt atomicValueLine 3 0 StringLiteral, lastWasColonV = False,
      parentsV = ps, openBracesCount = 0, adjustOffset = False,
      ret = \<lparr>tokens = tokens r @ [plainToken 0 (stringScope lwc ps)],
             endState = endStateOf state False ps\<rparr>\<rparr>"
  by (simp add: stepDefs atomicValue_scan atomicValue_key stringScope_def)

lemma atomicValue_step1:
  "tokenizeStep g comments atomicValueLine state 0 (Some postman_json) 0
     \<lparr>scanner = scannerAt atomicValueLine 3 0 StringLiteral, lastWasColonV = lwc, parentsV = ps,
      openBracesCount = obc, adjustOffset = ao, ret = r\<rparr> =
   Continue
     \<lparr>scanner = scannerAt atomicValueLine 4 3 ColonToken, lastWasColonV = True, parentsV = ps,
      openBracesCount = 0, adjustOffset = False,
      ret = \<lparr>tokens = tokens r @ [plainToken 3 TOKEN_DELIM_COLON],
             endState = endStateOf state True ps\<rparr>\<rparr>"
  by (simp add: stepDefs atomicValue_scan)

lemma atomicValue_step2:
  "tokenizeStep g comments atomicValueLine state 0 (Some postman_json) 0
     \<lparr>scanner = scannerAt atomicValueLine 4 3 ColonToken, lastWasColonV = lwc, parentsV = ps,
      openBracesCount = obc, adjustOffset = ao, ret = r\<rparr> =
   Continue
     \<lparr>scanner = scannerAt atomicValueLine 5 4 Trivia, lastWasColonV = lwc, parentsV = ps,
      openBracesCount = 0, adjustOffset = False,
      ret = \<lparr>tokens = tokens r @ [plainToken 4 []], endState = endStateOf state lwc ps\<rparr>\<rparr>"
  by (simp add: stepDefs atomicValue_scan)

lemma atomicValue_step3:
  "tokenizeStep g comments atomicValueLine state 0 (Some postman_json) 0
     \<lparr>scanner = scannerAt atomicValueLine 5 4 Trivia, lastWasColonV = lwc, parentsV = ps,
      openBracesCount = obc, adjustOffset = ao, ret = r\<rparr> =
   Continue
     \<lparr>scanner = scannerAt atomicValueLine 6 5 NumericLiteral, lastWasColonV = False,
      parentsV = ps, openBracesCount = 0, adjustOffset = False,
      ret = \<lparr>tokens = tokens r @ [plainToken 5 TOKEN_VALUE_NUMBER],
             endState = endStateOf state False ps\<rparr>\<rparr>"
  by (simp add: stepDefs atomicValue_scan)

lemma atomicValue_step4:
  "tokenizeStep g comments atomicValueLine state 0 (Some postman_json) 0
     \<lparr>scanner = scannerAt atomicValueLine 6 5 NumericLiteral, lastWasColonV = lwc, parentsV = ps,
      openBracesCount = obc, adjustOffset = ao, ret = r\<rparr> = Exit (Inr r)"
  by (simp add: stepDefs atomicValue_scan)

lemma atomicValue_tokenize:
  assumes "insertedPrefix (scanError state) = []"
  shows "tokenize g comments atomicValueLine state 0 (Some postman_json) =
    Some (Inr \<lparr>tokens =
                 [plainToken 0 (stringScope (lastWasColon state) (parents state)),
                  plainToken 3 TOKEN_DELIM_COLON,
                  plainToken 4 [],
                  plainToken 5 TOKEN_VALUE_NUMBER],
               endState = endStateOf state False (parents state)\<rparr>)"
  unfolding tokenize_def assms Let_def createScanner_def
  apply (simp only: append_Nil list.size of_nat_0)
  apply (subst tokenizeLoop.simps, simp only: atomicValue_step0 iteration.case)
  apply (subst tokenizeLoop.simps, simp only: atomicValue_step1 iteration.case)
  apply (subst tokenizeLoop.simps, simp only: atomicValue_step2 iteration.case)
  apply (subst tokenizeLoop.simps, simp only: atomicValue_step3 iteration.case)
  apply (subst tokenizeLoop.simps, simp only: atomicValue_step4 iteration.case)
  apply simp
  done

lemma stringScope_not_special:
  "stringScope lwc ps \<noteq> TOKEN_POSTMAN_VARIABLE" "stringScope lwc ps \<noteq> TOKEN_DELIM_OBJECT"
  by (simp_all add: stringScope_def TOKEN_VALUE_STRING_def TOKEN_PROPERTY_NAME_def
        TOKEN_POSTMAN_VARIABLE_def TOKEN_DELIM_OBJECT_def)

text \<open>
  On a line that does not continue a string or a block comment, and where the assignment to
  the global \<^verbatim>\<open>length\<close> is accepted, the placeholder is one token: among the tokens of the
  line \<^verbatim>\<open>"k": {{envVar}}\<close> exactly one has the scope \<^verbatim>\<open>postman.variable.json\<close>, and it runs from
  index 5 to index 14; no token has the scope of an object delimiter; the end state is the
  one reached on the line \<^verbatim>\<open>"k": 0\<close>.
\<close>

lemma fresh_line_placeholder_is_one_token:
  assumes \<open>insertedPrefix (scanError state) = []\<close>
  shows \<open>\<exists>r r'. tokenize Writable comments ''"k": {{envVar}}'' state 0 (Some postman_json)
                   = Some (Inr r) \<and>
           filter (\<lambda>t. scopes t = TOKEN_POSTMAN_VARIABLE) (tokens r) =
             [\<lparr>startIndex = 5, scopes = TOKEN_POSTMAN_VARIABLE, endIndex = Some 14\<rparr>] \<and>
           substring ''"k": {{envVar}}'' 5 (14 + 1) = ''{{envVar}}'' \<and>
           filter (\<lambda>t. scopes t = TOKEN_DELIM_OBJECT) (tokens r) = [] \<and>
           parents (endState r) = parents state \<and>
           tokenize g comments ''"k": 0'' state 0 (Some postman_json) = Some (Inr r') \<and>
           endState r = endState r'\<close>
proof -
  have \<open>substring ''"k": {{envVar}}'' 5 (14 + 1) = ''{{envVar}}''\<close>
    by code_simp
  moreover have \<open>TOKEN_DELIM_COLON \<noteq> TOKEN_POSTMAN_VARIABLE\<close> \<open>TOKEN_DELIM_COLON \<noteq> TOKEN_DELIM_OBJECT\<close>
    \<open>[] \<noteq> TOKEN_POSTMAN_VARIABLE\<close> \<open>[] \<noteq> TOKEN_DELIM_OBJECT\<close>
    \<open>TOKEN_POSTMAN_VARIABLE \<noteq> TOKEN_DELIM_OBJECT\<close>
    by (simp_all add: TOKEN_DELIM_COLON_def TOKEN_POSTMAN_VARIABLE_def TOKEN_DELIM_OBJECT_def)
  ultimately show ?thesis
    using envVar_tokenize[OF assms, of comments] atomicValue_tokenize[OF assms, of g comments]
    by (simp add: envVarLine_def atomicValueLine_def stringScope_not_special)
qed

text \<open>Where the global object has no property \<^verbatim>\<open>length\<close> the same line ends in a
  \<^verbatim>\<open>ReferenceError\<close>, thrown at the second brace.\<close>

lemma envVar_step4_Undeclared:
  "tokenizeStep Undeclared comments envVarLine state 0 (Some postman_json) 0
     \<lparr>scanner = scannerAt envVarLine 6 5 OpenBraceToken, lastWasColonV = False,
      parentsV = Some (ParentsStack ps Object), openBracesCount = 1, adjustOffset = ao, ret = r\<rparr> =
   Exit (Inl ReferenceError)"
  by (simp add: stepDefs envVar_scan findClosestDelimiter_Undeclared)

lemma envVar_tokenize_Undeclared:
  assumes "insertedPrefix (scanError state) = []"
  shows "tokenize Undeclared comments envVarLine state 0 (Some postman_json) =
           Some (Inl ReferenceError)"
  unfolding tokenize_def assms Let_def createScanner_def
  apply (simp only: append_Nil list.size of_nat_0)
  apply (subst tokenizeLoop.simps, simp only: envVar_step0 iteration.case)
  apply (subst tokenizeLoop.simps, simp only: envVar_step1 iteration.case)
  apply (subst tokenizeLoop.simps, simp only: envVar_step2 iteration.case)
  apply (subst tokenizeLoop.simps, simp only: envVar_step3 iteration.case)
  apply (subst tokenizeLoop.simps, simp only: envVar_step4_Undeclared iteration.case)
  done

text \<open>
  Claim C1 says that wherever \<^verbatim>\<open>{{envVar}}\<close> is the whole value of a top-level property,
  \<^verbatim>\<open>tokenize\<close> gives one placeholder token over it and no object-delimiter token for its
  braces, and leaves the parent stack that a single atomic value would leave.  The line
  \<^verbatim>\<open>{"\<close> ends inside a string, with one frame on the parent stack.  From its end state the
  line \<^verbatim>\<open>a": {{envVar}}\<close> is scanned as \<^verbatim>\<open>"a": {{envVar}}\<close>.  The placeholder token gets corrected
  offsets, 4 to 13, the text \<^verbatim>\<open>{{envVar}}\<close> of the line, and the scanner is then set to its end
  index plus one: 14, an offset of the line, is used as a position of the prefixed text, where
  it is the position of the last closing brace.  That brace is scanned again: it gets an
  object-delimiter token at index 13 and pops a third frame, so that the end state has an
  empty parent stack, where the line \<^verbatim>\<open>a": 0\<close> keeps the frame of the open object.
\<close>

theorem continued_line_placeholder_rescans_brace:
  \<open>tokenize Writable True ''{"'' (getInitialState :: unit JSONState) 0 (Some postman_json) =
     Some (Inr \<lparr>tokens = [\<lparr>startIndex = 0, scopes = TOKEN_DELIM_OBJECT, endIndex = None\<rparr>,
                          \<lparr>startIndex = 1, scopes = TOKEN_PROPERTY_NAME, endIndex = None\<rparr>],
                endState = \<lparr>stateData = None, scanError = Some UnexpectedEndOfString,
                             lastWasColon = False,
                             parents = Some (ParentsStack None Object)\<rparr>\<rparr>) \<and>
   tokenize Writable True ''a": {{envVar}}''
     (\<lparr>stateData = None, scanError = Some UnexpectedEndOfString, lastWasColon = False,
       parents = Some (ParentsStack None Object)\<rparr> :: unit JSONState) 0 (Some postman_json) =
     Some (Inr \<lparr>tokens =
                  [\<lparr>startIndex = 0, scopes = TOKEN_PROPERTY_NAME, endIndex = None\<rparr>,
                   \<lparr>startIndex = 2, scopes = TOKEN_DELIM_COLON, endIndex = None\<rparr>,
                   \<lparr>startIndex = 3, scopes = [], endIndex = None\<rparr>,
                   \<lparr>startIndex = 4, scopes = TOKEN_POSTMAN_VARIABLE, endIndex = Some 13\<rparr>,
                   \<lparr>startIndex = 13, scopes = TOKEN_DELIM_OBJECT, endIndex = None\<rparr>],
                endState = \<lparr>stateData = None, scanError = Some ScanError_None,
                             lastWasColon = False, parents = None\<rparr>\<rparr>) \<and>
   substring ''a": {{envVar}}'' 4 (13 + 1) = ''{{envVar}}'' \<and>
   charAt (insertedPrefix (Some UnexpectedEndOfString) @ ''a": {{envVar}}'') (13 + 1) = Some (CHR ''}'') \<and>
   tokenize Writable True ''a": 0''
     (\<lparr>stateData = None, scanError = Some UnexpectedEndOfString, lastWasColon = False,
       parents = Some (ParentsStack None Object)\<rparr> :: unit JSONState) 0 (Some postman_json) =
     Some (Inr \<lparr>tokens =
                  [\<lparr>startIndex = 0, scopes = TOKEN_PROPERTY_NAME, endIndex = None\<rparr>,
                   \<lparr>startIndex = 2, scopes = TOKEN_DELIM_COLON, endIndex = None\<rparr>,
                   \<lparr>startIndex = 3, scopes = [], endIndex = None\<rparr>,
                   \<lparr>startIndex = 4, scopes = TOKEN_VALUE_NUMBER, endIndex = None\<rparr>],
                endState = \<lparr>stateData = None, scanError = Some ScanError_None,
                             lastWasColon = False,
                             parents = Some (ParentsStack None Object)\<rparr>\<rparr>)\<close>
  by code_simp

subsection \<open>A placeholder inside a string value\<close>

definition baseUrlLine :: string where \<open>baseUrlLine = ''"u": "{{baseUrl}}/api"''\<close>

lemma baseUrl_scan:
  "scan (scannerAt baseUrlLine 0 0 Unknown) = scannerAt baseUrlLine 3 0 StringLiteral"
  "scan (scannerAt baseUrlLine 3 0 StringLiteral) = scannerAt baseUrlLine 4 3 ColonToken"
  "scan (scannerAt baseUrlLine 4 3 ColonToken) = scannerAt baseUrlLine 5 4 Trivia"
  "scan (scannerAt baseUrlLine 5 4 Trivia) = scannerAt baseUrlLine 22 5 StringLiteral"
  "scan (scannerAt baseUrlLine 22 5 StringLiteral) = scannerAt baseUrlLine 22 22 EOF"
  by code_simp+

lemma baseUrl_key: "createPostmanVariableScanner (substr baseUrlLine 1 1) 1 iv True = Inr []"
  by (cases iv; code_simp)

lemma baseUrl_value:
  "createPostmanVariableScanner (substr baseUrlLine 6 15) 6 True True =
   Inr [\<lparr>startIndex = 6, scopes = TOKEN_POSTMAN_VARIABLE_IN_STRING, endIndex = Some 16\<rparr>,
        plainToken 17 TOKEN_VALUE_STRING]"
  by code_simp

lemma baseUrl_step0:
  "tokenizeStep g comments baseUrlLine state 0 (Some postman_json) 0
     \<lparr>scanner = scannerAt baseUrlLine 0 0 Unknown, lastWasColonV = lwc, parentsV = ps,
      openBracesCount = obc, adjustOffset = ao, ret = r\<rparr> =
   Continue
     \<lparr>scanner = scannerAt baseUrlLine 3 0 StringLiteral, lastWasColonV = False, parentsV = ps,
      openBracesCount = 0, adjustOffset = False,
      ret = \<lparr>tokens = tokens r @ [plainToken 0 (stringScope lwc ps)],
             endState = endStateOf state False ps\<rparr>\<rparr>"
  by (simp add: stepDefs baseUrl_scan baseUrl_key stringScope_def)

lemma baseUrl_step1:
  "tokenizeStep g comments baseUrlLine state 0 (Some postman_json) 0
     \<lparr>scanner = scannerAt baseUrlLine 3 0 StringLiteral, lastWasColonV = lwc, parentsV = ps,
      openBracesCount = obc, adjustOffset = ao, ret = r\<rparr> =
   Continue
     \<lparr>scanner = scannerAt baseUrlLine 4 3 ColonToken, lastWasColonV = True, parentsV = ps,
      openBracesCount = 0, adjustOffset = False,
      ret = \<lparr>tokens = tokens r @ [plainToken 3 TOKEN_DELIM_COLON],
             endState = endStateOf state True ps\<rparr>\<rparr>"
  by (simp add: stepDefs baseUrl_scan)

lemma baseUrl_step2:
  "tokenizeStep g comments baseUrlLine state 0 (Some postman_json) 0
     \<lparr>scanner = scannerAt baseUrlLine 4 3 ColonToken, lastWasColonV = lwc, parentsV = ps,
      openBracesCount = obc, adjustOffset = ao, ret = r\<rparr> =
   Continue
     \<lparr>scanner = scannerAt baseUrlLine 5 4 Trivia, lastWasColonV = lwc, parentsV = ps,
      openBracesCount = 0, adjustOffset = False,
      ret = \<lparr>tokens = tokens r @ [plainToken 4 []], endState = endStateOf state lwc ps\<rparr>\<rparr>"
  by (simp add: stepDefs baseUrl_scan)

lemma baseUrl_step3:
  "tokenizeStep g comments baseUrlLine state 0 (Some postman_json) 0
     \<lparr>scanner = scannerAt baseUrlLine 5 4 Trivia, lastWasColonV = True, parentsV = ps,
      openBracesCount = obc, adjustOffset = ao, ret = r\<rparr> =
   Continue
     \<lparr>scanner = scannerAt baseUrlLine 22 5 StringLiteral, lastWasColonV = False, parentsV = ps,
      openBracesCount = 0, adjustOffset = False,
      ret = \<lparr>tokens = tokens r @
                 [plainToken 5 TOKEN_VALUE_STRING,
                  \<lparr>startIndex = 6, scopes = TOKEN_POSTMAN_VARIABLE_IN_STRING, endIndex = Some 16\<rparr>,
                  plainToken 17 TOKEN_VALUE_STRING],
             endState = endStateOf state False ps\<rparr>\<rparr>"
  by (simp add: stepDefs baseUrl_scan baseUrl_value)

lemma baseUrl_step4:
  "tokenizeStep g comments baseUrlLine state 0 (Some postman_json) 0
     \<lparr>scanner = scannerAt baseUrlLine 22 5 StringLiteral, lastWasColonV = lwc, parentsV = ps,
      openBracesCount = obc, adjustOffset = ao, ret = r\<rparr> = Exit (Inr r)"
  by (simp add: stepDefs baseUrl_scan)

lemma baseUrl_tokenize:
  assumes "insertedPrefix (scanError state) = []"
  shows "tokenize g comments baseUrlLine state 0 (Some postman_json) =
    Some (Inr \<lparr>tokens =
                 [plainToken 0 (stringScope (lastWasColon state) (parents state)),
                  plainToken 3 TOKEN_DELIM_COLON,
                  plainToken 4 [],
                  plainToken 5 TOKEN_VALUE_STRING,
                  \<lparr>startIndex = 6, scopes = TOKEN_POSTMAN_VARIABLE_IN_STRING, endIndex = Some 16\<rparr>,
                  plainToken 17 TOKEN_VALUE_STRING],
               endState = endStateOf state False (parents state)\<rparr>)"
  unfolding tokenize_def assms Let_def createScanner_def
  apply (simp only: append_Nil list.size of_nat_0)
  apply (subst tokenizeLoop.simps, simp only: baseUrl_step0 iteration.case)
  apply (subst tokenizeLoop.simps, simp only: baseUrl_step1 iteration.case)
  apply (subst tokenizeLoop.simps, simp only: baseUrl_step2 iteration.case)
  apply (subst tokenizeLoop.simps, simp only: baseUrl_step3 iteration.case)
  apply (subst tokenizeLoop.simps, simp only: baseUrl_step4 iteration.case)
  apply simp
  done

text \<open>
  Modelled from the spec: how the editor, which is not part of the sources, reads the token
  list of a line.  The spec (section 3) gives a token an end offset that is ``exclusive,
  optional/implicit'': a token covers the line from its start index up to the start index of
  the next token, and the last token up to the end of the line.
\<close>

fun impliedSpans :: "int \<Rightarrow> IToken list \<Rightarrow> (int \<times> int) list" where
  "impliedSpans lineLength [] = []"
| "impliedSpans lineLength [t] = [(startIndex t, lineLength)]"
| "impliedSpans lineLength (t # u # ts) =
     (startIndex t, startIndex u) # impliedSpans lineLength (u # ts)"

text \<open>
  Claim C2 as the code has it.  Take the line \<^verbatim>\<open>"u": "{{baseUrl}}/api"\<close>, the placeholder-aware
  variant and any state that does not continue a string or block comment.  After the token
  of the container string (index 5) come a token with the scope
  \<^verbatim>\<open>postman.variable.string.json\<close> from index 6 to index 16, exactly the text \<^verbatim>\<open>{{baseUrl}}\<close>,
  and then a string-value token that starts at index 17, the \<^verbatim>\<open>/\<close>, so that the two neither
  overlap nor leave a gap.  This last token has no end index and no token follows it on the
  line: it covers \<^verbatim>\<open>/api\<close> and the closing quote at index 21.
\<close>

theorem placeholder_in_string_value:
  assumes \<open>insertedPrefix (scanError state) = []\<close>
  shows \<open>\<exists>r. tokenize g comments ''"u": "{{baseUrl}}/api"'' state 0 (Some postman_json) = Some (Inr r) \<and>
           drop 3 (tokens r) =
             [\<lparr>startIndex = 5, scopes = TOKEN_VALUE_STRING, endIndex = None\<rparr>,
              \<lparr>startIndex = 6, scopes = TOKEN_POSTMAN_VARIABLE_IN_STRING, endIndex = Some 16\<rparr>,
              \<lparr>startIndex = 17, scopes = TOKEN_VALUE_STRING, endIndex = None\<rparr>] \<and>
           substring ''"u": "{{baseUrl}}/api"'' 6 (16 + 1) = ''{{baseUrl}}'' \<and>
           drop 4 (impliedSpans (int (length ''"u": "{{baseUrl}}/api"'')) (tokens r)) =
             [(6, 17), (17, 22)] \<and>
           substring ''"u": "{{baseUrl}}/api"'' 17 22 = ''/api"''\<close>
proof -
  have \<open>substring ''"u": "{{baseUrl}}/api"'' 6 (16 + 1) = ''{{baseUrl}}''\<close>
       \<open>substring ''"u": "{{baseUrl}}/api"'' 17 22 = ''/api"''\<close>
    by code_simp+
  then show ?thesis
    using baseUrl_tokenize[OF assms, of g comments]
    by (simp add: baseUrlLine_def)
qed

theorem placeholder_in_string_value_witness:
  \<open>insertedPrefix (scanError (getInitialState :: unit JSONState)) = [] \<and>
   (\<exists>r. tokenize Writable True ''"u": "{{baseUrl}}/api"'' (getInitialState :: unit JSONState) 0
            (Some postman_json) = Some (Inr r) \<and>
         drop 3 (tokens r) =
           [\<lparr>startIndex = 5, scopes = TOKEN_VALUE_STRING, endIndex = None\<rparr>,
            \<lparr>startIndex = 6, scopes = TOKEN_POSTMAN_VARIABLE_IN_STRING, endIndex = Some 16\<rparr>,
            \<lparr>startIndex = 17, scopes = TOKEN_VALUE_STRING, endIndex = None\<rparr>])\<close>
proof -
  have h: \<open>insertedPrefix (scanError (getInitialState :: unit JSONState)) = []\<close>
    by (simp add: getInitialState_def insertedPrefix_def)
  show ?thesis
    using h placeholder_in_string_value[OF h, of Writable True] by auto
qed

text \<open>
  Claim C2 as stated asks for a filler token that spans \<^verbatim>\<open>/api\<close> with the quotes excluded,
  that is, from index 17 to index 20.  On the line \<^verbatim>\<open>"u": "{{baseUrl}}/api"\<close> from the initial
  state the filler is the last token, it records no end index, and read as the editor reads
  a token list it runs from index 17 to the end of the line, over the closing quote.
\<close>

theorem string_filler_covers_closing_quote:
  \<open>tokenize Writable True ''"u": "{{baseUrl}}/api"'' (getInitialState :: unit JSONState) 0
     (Some postman_json) =
     Some (Inr \<lparr>tokens =
                  [\<lparr>startIndex = 0, scopes = TOKEN_PROPERTY_NAME, endIndex = None\<rparr>,
                   \<lparr>startIndex = 3, scopes = TOKEN_DELIM_COLON, endIndex = None\<rparr>,
                   \<lparr>startIndex = 4, scopes = [], endIndex = None\<rparr>,
                   \<lparr>startIndex = 5, scopes = TOKEN_VALUE_STRING, endIndex = None\<rparr>,
                   \<lparr>startIndex = 6, scopes = TOKEN_POSTMAN_VARIABLE_IN_STRING, endIndex = Some 16\<rparr>,
                   \<lparr>startIndex = 17, scopes = TOKEN_VALUE_STRING, endIndex = None\<rparr>],
                endState = \<lparr>stateData = None, scanError = Some ScanError_None,
                             lastWasColon = False, parents = None\<rparr>\<rparr>) \<and>
   endIndex \<lparr>startIndex = 17, scopes = TOKEN_VALUE_STRING, endIndex = None\<rparr> \<noteq> Some 20 \<and>
   last (impliedSpans 22
          [\<lparr>startIndex = 0, scopes = TOKEN_PROPERTY_NAME, endIndex = None\<rparr>,
           \<lparr>startIndex = 3, scopes = TOKEN_DELIM_COLON, endIndex = None\<rparr>,
           \<lparr>startIndex = 4, scopes = [], endIndex = None\<rparr>,
           \<lparr>startIndex = 5, scopes = TOKEN_VALUE_STRING, endIndex = None\<rparr>,
           \<lparr>startIndex = 6, scopes = TOKEN_POSTMAN_VARIABLE_IN_STRING, endIndex = Some 16\<rparr>,
           \<lparr>startIndex = 17, scopes = TOKEN_VALUE_STRING, endIndex = None\<rparr>]) = (17, 22) \<and>
   substring ''"u": "{{baseUrl}}/api"'' 17 22 = ''/api"'' \<and>
   substring ''"u": "{{baseUrl}}/api"'' 17 22 \<noteq> ''/api''\<close>
  by code_simp

subsection \<open>A match that starts after the head of the lookahead\<close>

text \<open>
  Claim C4 says that on the path taken at two consecutive open braces a match is accepted
  only if it starts at the first character of the lookahead, in the tokenizer and in the
  formatter alike.  On the line \<^verbatim>\<open>{{a} {{b}}\<close> the lookahead is the whole line and its only
  match starts at index 5.  The formatter rejects it: \<^verbatim>\<open>getPostmanVariablePosition\<close> compares
  \<^verbatim>\<open>minStartIndex\<close> with \<^verbatim>\<open>startPosition\<close> and returns nothing.  The tokenizer has no such
  test: it takes the match, drops the token of the first brace and pops both frames, so that
  the only token of the line starts at index 5.  (This is where the assignment to the global
  \<^verbatim>\<open>length\<close> is accepted; where it is not, the tokenizer ends in a \<^verbatim>\<open>ReferenceError\<close> at the
  second brace, before any match is looked for.)
\<close>

theorem tokenizer_accepts_late_match:
  \<open>tokenize Writable True ''{{a} {{b}}'' (getInitialState :: unit JSONState) 0 (Some postman_json) =
     Some (Inr \<lparr>tokens = [\<lparr>startIndex = 5, scopes = TOKEN_POSTMAN_VARIABLE, endIndex = Some 9\<rparr>],
                endState = \<lparr>stateData = None, scanError = Some ScanError_None,
                             lastWasColon = False, parents = None\<rparr>\<rparr>) \<and>
   (let env = formatEnv ''{{a} {{b}}'' None
                \<lparr>tabSize = Some 4, insertSpaces = Some True, eol = Some [lineFeed]\<rparr>;
        v0 = \<lparr>scannerF = createScanner (formatText env), lineBreak = False, hasError = False,
               indentLevel = 0, editOperations = []\<rparr>;
        v1 = snd (scanNext v0);
        v2 = snd (scanNext v1)
    in fst (scanNext v0) = OpenBraceToken \<and> fst (scanNext v1) = OpenBraceToken \<and>
       \<not> lineBreak v2 \<and> fst (getPostmanVariablePosition env v2) = None) \<and>
   tokenize Undeclared True ''{{a} {{b}}'' (getInitialState :: unit JSONState) 0
     (Some postman_json) = Some (Inl ReferenceError)\<close>
  by code_simp

subsection \<open>A placeholder in a string continued from the previous line\<close>

text \<open>
  Claim C5 says that after the synthetic prefix every token but the first has its start
  offset reduced by the number of inserted characters, so that it is an offset into the
  original line.  The line \<^verbatim>\<open>"a\<close> ends inside a string and leaves the error code of an
  unterminated string in the end state.  From that state the line \<^verbatim>\<open>{{x}}"\<close> is scanned as
  \<^verbatim>\<open>"{{x}}"\<close>; its first token is the string, and the placeholder tokens made for that string
  are placed from the uncorrected offset of the first token: the placeholder, which is at
  indices 0 to 4 of the line, is reported at 1 to 5, and the filler at 6, which is the length
  of the line.
\<close>

theorem continued_string_placeholder_offsets:
  \<open>tokenize g True ''"a'' (getInitialState :: unit JSONState) 0 (Some postman_json) =
     Some (Inr \<lparr>tokens = [\<lparr>startIndex = 0, scopes = TOKEN_PROPERTY_NAME, endIndex = None\<rparr>],
                endState = \<lparr>stateData = None, scanError = Some UnexpectedEndOfString,
                             lastWasColon = False, parents = None\<rparr>\<rparr>) \<and>
   tokenize g True ''{{x}}"''
     (\<lparr>stateData = None, scanError = Some UnexpectedEndOfString, lastWasColon = False,
       parents = None\<rparr> :: unit JSONState) 0 (Some postman_json) =
     Some (Inr \<lparr>tokens =
                  [\<lparr>startIndex = 0, scopes = TOKEN_PROPERTY_NAME, endIndex = None\<rparr>,
                   \<lparr>startIndex = 1, scopes = TOKEN_POSTMAN_VARIABLE_IN_STRING, endIndex = Some 5\<rparr>,
                   \<lparr>startIndex = 6, scopes = TOKEN_PROPERTY_NAME, endIndex = None\<rparr>],
                endState = \<lparr>stateData = None, scanError = Some ScanError_None,
                             lastWasColon = False, parents = None\<rparr>\<rparr>) \<and>
   substring ''{{x}}"'' 0 5 = ''{{x}}'' \<and>
   int (length ''{{x}}"'') = 6\<close>
  by code_simp

section \<open>Formatting a document with a missing comma\<close>

text \<open>
  Claim C3 as the code has it.  Formatting \<^verbatim>\<open>{"a":1 2}\<close> without a range and with the default
  options returns three edits: a line break and four spaces after the open brace, a space
  after the colon, and a line break before the close brace.  The error flag is set for the
  pair \<^verbatim>\<open>1\<close>, \<^verbatim>\<open>2\<close> and computed anew by the next \<^verbatim>\<open>scanNext\<close>, so only the replacement
  between these two tokens is dropped; the edits made before it are kept and the edit after
  it is made.  The entry point \<^verbatim>\<open>format\<close> without options returns the same list.
\<close>

theorem format_missing_comma_edits:
  \<open>formatJSON ''{"a":1 2}'' None
     \<lparr>tabSize = Some 4, insertSpaces = Some True, eol = Some [lineFeed]\<rparr> =
     Some [\<lparr>offsetE = 1, lengthE = 0, content = lineFeed # ''    ''\<rparr>,
           \<lparr>offsetE = 5, lengthE = 0, content = '' ''\<rparr>,
           \<lparr>offsetE = 8, lengthE = 0, content = [lineFeed]\<rparr>] \<and>
   format ''{"a":1 2}'' None None =
     Some [\<lparr>offsetE = 1, lengthE = 0, content = lineFeed # ''    ''\<rparr>,
           \<lparr>offsetE = 5, lengthE = 0, content = '' ''\<rparr>,
           \<lparr>offsetE = 8, lengthE = 0, content = [lineFeed]\<rparr>]\<close>
  by code_simp

text \<open>
  Claim C3 as stated asks for an empty edit list on \<^verbatim>\<open>{"a":1 2}\<close>; the list returned is not
  empty.
\<close>

theorem format_missing_comma_not_empty:
  \<open>formatJSON ''{"a":1 2}'' None
     \<lparr>tabSize = Some 4, insertSpaces = Some True, eol = Some [lineFeed]\<rparr> \<noteq> Some [] \<and>
   format ''{"a":1 2}'' None None \<noteq> Some []\<close>
  by code_simp

section \<open>The edits of the formatter and the requested range\<close>

text \<open>What the guard of \<^verbatim>\<open>addEdit\<close> establishes for an edit: its span meets the range and
  its text differs from the document text at the span.\<close>

definition admitted :: "FormatEnv \<Rightarrow> Edit \<Rightarrow> bool" where
  "admitted env e \<longleftrightarrow>
     offsetE e < rangeEnd env \<and> rangeStart env < offsetE e + lengthE e \<and>
     substring (documentText env) (offsetE e) (offsetE e + lengthE e) \<noteq> content e"

definition allAdmitted :: "FormatEnv \<Rightarrow> FormatVars \<Rightarrow> bool" where
  "allAdmitted env v \<longleftrightarrow> list_all (admitted env) (editOperations v)"

lemma addEdit_admitted: "allAdmitted env v \<Longrightarrow> allAdmitted env (addEdit env txt a b v)"
  by (simp add: allAdmitted_def addEdit_def admitted_def)

lemma editOperations_scanNext: "editOperations (snd (scanNext v)) = editOperations v"
  by (simp add: scanNext_def Let_def)

lemma scanNext_admitted: "allAdmitted env (snd (scanNext v)) = allAdmitted env v"
  by (simp add: allAdmitted_def editOperations_scanNext)

lemma getPostmanVariablePosition_cases:
  "getPostmanVariablePosition env v = (None, v) \<or>
   (\<exists>p m. getPostmanVariablePosition env v =
            (Some p, v\<lparr>scannerF := scan (setPosition (scannerF v) m)\<rparr>) \<and> endIndexV p = m)"
proof -
  define sp where "sp = getTokenOffset (scannerF v) + formatTextStart env - 1"
  define t where "t = lookaheadText (substringFrom (formatText env) sp)"
  obtain matched bounds where m: "matchBraces t sp 0 [] [] None = (matched, bounds)"
    by (cases "matchBraces t sp 0 [] [] None") auto
  have unfold: "getPostmanVariablePosition env v =
      (if t = [] then (None, v)
       else if matched \<noteq> [] then
         (case bounds of
            None \<Rightarrow> (None, v)
          | Some (minStartIndex, maxEndIndex) \<Rightarrow>
              if minStartIndex \<noteq> sp then (None, v)
              else (Some \<lparr>startIndexV = sp, endIndexV = maxEndIndex\<rparr>,
                    v\<lparr>scannerF := scan (setPosition (scannerF v) maxEndIndex)\<rparr>))
       else (None, v))"
    unfolding getPostmanVariablePosition_def Let_def sp_def[symmetric] t_def[symmetric] m
    by simp
  show ?thesis
  proof (cases bounds)
    case None
    then show ?thesis by (simp add: unfold)
  next
    case (Some b)
    then show ?thesis by (cases b) (simp add: unfold)
  qed
qed

lemma editOperations_getPostmanVariablePosition:
  "editOperations (snd (getPostmanVariablePosition env v)) = editOperations v"
  using getPostmanVariablePosition_cases[of env v] by auto

lemma placeholderSearch_admitted:
  "allAdmitted env v \<Longrightarrow>
   allAdmitted env (snd (snd (snd (placeholderSearch env firstToken fte secondToken v))))"
  using editOperations_getPostmanVariablePosition[of env v]
  by (auto simp: placeholderSearch_def allAdmitted_def editOperations_scanNext
           split: prod.splits option.splits)

lemma commentLoop_admitted:
  "allAdmitted env v \<Longrightarrow> allAdmitted env (fst (commentLoop env v fte rc secondToken))"
proof (induction env v fte rc secondToken rule: commentLoop.induct)
  case (1 env v firstTokenEnd replaceContent secondToken)
  show ?case
  proof (cases "\<not> lineBreak v \<and> (secondToken = LineCommentTrivia \<or> secondToken = BlockCommentTrivia)")
    case True
    let ?v1 = "addEdit env '' '' firstTokenEnd (getTokenOffset (scannerF v) + formatTextStart env) v"
    have "allAdmitted env (snd (scanNext ?v1))"
      using "1.prems" by (simp add: scanNext_admitted addEdit_admitted)
    then show ?thesis
      using True "1.IH"[OF True refl refl refl refl]
      by (subst commentLoop.simps) (simp add: Let_def)
  next
    case False
    then show ?thesis using "1.prems" by (subst commentLoop.simps) auto
  qed
qed

lemma editOperations_afterValue:
  "editOperations (fst (afterValue secondToken v rc)) = editOperations v"
  by (simp add: afterValue_def)

lemma editOperations_firstTokenSwitch:
  "editOperations (fst (firstTokenSwitch env firstToken secondToken v rc)) = editOperations v"
  by (cases firstToken) (simp_all add: firstTokenSwitch_def Let_def editOperations_afterValue)

lemma editOperations_replacement:
  "editOperations (fst (replacement env firstToken secondToken v rc)) = editOperations v"
  by (simp add: replacement_def Let_def editOperations_firstTokenSwitch)

lemma formatStep_admitted:
  assumes "allAdmitted env v"
  shows "allAdmitted env (fst (formatStep env v firstToken))"
proof -
  define r where "r = scanNext v"
  define fte where
    "fte = getTokenOffset (scannerF v) + getTokenLength (scannerF v) + formatTextStart env"
  obtain ft1 fte1 st1 v1
    where ps: "placeholderSearch env firstToken fte (fst r) (snd r) = (ft1, fte1, st1, v1)"
    using prod_cases4 by blast
  obtain v2 fte2 rc2 st2 where cl: "commentLoop env v1 fte1 [] st1 = (v2, fte2, rc2, st2)"
    using prod_cases4 by blast
  obtain v3 rc3 where rp: "replacement env ft1 st2 v2 rc2 = (v3, rc3)"
    by (cases "replacement env ft1 st2 v2 rc2") auto
  have step: "formatStep env v firstToken =
      (addEdit env rc3 fte2 (getTokenOffset (scannerF v3) + formatTextStart env) v3, st2)"
    unfolding formatStep_def Let_def r_def[symmetric] fte_def[symmetric]
    by (simp add: ps cl rp)
  have "allAdmitted env (snd r)" using assms by (simp add: r_def scanNext_admitted)
  then have "allAdmitted env v1"
    using placeholderSearch_admitted[of env "snd r" firstToken fte "fst r"] ps by simp
  then have "allAdmitted env v2"
    using commentLoop_admitted[of env v1 fte1 "[]" st1] cl by simp
  then have "allAdmitted env v3"
    using editOperations_replacement[of env ft1 st2 v2 rc2] rp by (simp add: allAdmitted_def)
  then show ?thesis
    by (simp add: step addEdit_admitted)
qed

lemma formatLoop_admitted:
  assumes "formatLoop env v firstToken = Some edits" and "allAdmitted env v"
  shows "list_all (admitted env) edits"
proof -
  have "allAdmitted env v \<longrightarrow> list_all (admitted env) edits"
  proof (rule formatLoop.raw_induct
           [where P = "\<lambda>env v firstToken edits.
                         allAdmitted env v \<longrightarrow> list_all (admitted env) edits",
            OF _ assms(1)])
    fix loop env v firstToken edits
    assume IH: "\<And>env' v' firstToken' edits'. loop env' v' firstToken' = Some edits' \<Longrightarrow>
                  allAdmitted env' v' \<longrightarrow> list_all (admitted env') edits'"
      and eq: "(if firstToken \<noteq> EOF
                then loop env (fst (formatStep env v firstToken))
                       (snd (formatStep env v firstToken))
                else Some (editOperations v)) = Some edits"
    show "allAdmitted env v \<longrightarrow> list_all (admitted env) edits"
    proof (cases "firstToken = EOF")
      case True
      then show ?thesis using eq by (auto simp: allAdmitted_def)
    next
      case False
      then show ?thesis
        using IH[of env "fst (formatStep env v firstToken)" "snd (formatStep env v firstToken)"
                 edits] eq formatStep_admitted[of env v firstToken]
        by simp
    qed
  qed
  then show ?thesis using assms(2) by simp
qed

lemma formatEnv_range:
  "documentText (formatEnv docText rng options) = docText"
  "rangeStart (formatEnv docText (Some r) options) = offsetR r"
  "rangeEnd (formatEnv docText (Some r) options) = offsetR r + lengthR r"
  "rangeStart (formatEnv docText None options) = 0"
  "rangeEnd (formatEnv docText None options) = int (length docText)"
  by (simp_all add: formatEnv_def Let_def split: option.splits)

lemma formatJSON_admitted:
  assumes "formatJSON docText rng options = Some edits"
  shows "list_all (admitted (formatEnv docText rng options)) edits"
proof -
  let ?env = "formatEnv docText rng options"
  let ?v0 = "\<lparr>scannerF = createScanner (formatText ?env), lineBreak = False, hasError = False,
                indentLevel = 0, editOperations = []\<rparr>"
  have "allAdmitted ?env ?v0" by (simp add: allAdmitted_def)
  then have a: "allAdmitted ?env (snd (scanNext ?v0))" by (simp add: scanNext_admitted)
  show ?thesis
    using assms a
    by (auto simp: formatJSON_def Let_def addEdit_admitted dest!: formatLoop_admitted split: if_splits)
qed

text \<open>
  Claim C7 as the code has it.  When \<^verbatim>\<open>formatJSON\<close> is called with a sub-range and returns,
  every edit meets the range, that is, it starts before \<^verbatim>\<open>rangeEnd\<close> and ends after
  \<^verbatim>\<open>rangeStart\<close>, and its text differs from the document text at its span.  This holds for
  every document text, range and options.  The span may begin before \<^verbatim>\<open>rangeStart\<close> or end
  after \<^verbatim>\<open>rangeEnd\<close>.
\<close>

theorem range_edits_meet_range_and_change_text:
  assumes "formatJSON docText (Some r) options = Some edits" and "e \<in> set edits"
  shows "offsetE e < offsetR r + lengthR r \<and> offsetR r < offsetE e + lengthE e \<and>
         substring docText (offsetE e) (offsetE e + lengthE e) \<noteq> content e"
  using formatJSON_admitted[OF assms(1)] assms(2)
  by (simp add: list_all_iff admitted_def formatEnv_range)

theorem range_edits_meet_range_and_change_text_witness:
  "formatJSON ''[1,  2]'' (Some \<lparr>offsetR = 4, lengthR = 1\<rparr>)
     \<lparr>tabSize = Some 4, insertSpaces = Some True, eol = Some [lineFeed]\<rparr> =
     Some [\<lparr>offsetE = 3, lengthE = 2, content = lineFeed # ''    ''\<rparr>] \<and>
   \<lparr>offsetE = 3, lengthE = 2, content = lineFeed # ''    ''\<rparr>
     \<in> set [\<lparr>offsetE = 3, lengthE = 2, content = lineFeed # ''    ''\<rparr>] \<and>
   (3::int) < 4 + 1 \<and> (4::int) < 3 + 2 \<and>
   substring ''[1,  2]'' 3 (3 + 2) \<noteq> lineFeed # ''    ''"
proof -
  have f: "formatJSON ''[1,  2]'' (Some \<lparr>offsetR = 4, lengthR = 1\<rparr>)
     \<lparr>tabSize = Some 4, insertSpaces = Some True, eol = Some [lineFeed]\<rparr> =
     Some [\<lparr>offsetE = 3, lengthE = 2, content = lineFeed # ''    ''\<rparr>]"
    by code_simp
  have m: "\<lparr>offsetE = 3, lengthE = 2, content = lineFeed # ''    ''\<rparr>
     \<in> set [\<lparr>offsetE = 3, lengthE = 2, content = lineFeed # ''    ''\<rparr>]"
    by simp
  show ?thesis
    using f m range_edits_meet_range_and_change_text[OF f m] by simp
qed

text \<open>
  Claim C7 as stated asks that the span of every edit lies within the range.  For the text
  \<^verbatim>\<open>[1,  2]\<close> and the range of length 1 at offset 4 (the second blank) the one edit returned
  replaces the two characters from offset 3 on: its span begins before the range.
\<close>

theorem range_edit_begins_before_range:
  "formatJSON ''[1,  2]'' (Some \<lparr>offsetR = 4, lengthR = 1\<rparr>)
     \<lparr>tabSize = Some 4, insertSpaces = Some True, eol = Some [lineFeed]\<rparr> =
     Some [\<lparr>offsetE = 3, lengthE = 2, content = lineFeed # ''    ''\<rparr>] \<and>
   \<not> (offsetR \<lparr>offsetR = 4, lengthR = 1\<rparr>
        \<le> offsetE \<lparr>offsetE = 3, lengthE = 2, content = lineFeed # ''    ''\<rparr>)"
  by code_simp

section \<open>The tokenizer on a store of objects\<close>

text \<open>
  The definitions above take a state as a value.  To say that \<^verbatim>\<open>tokenize\<close> does not change
  the objects it is given, the objects are placed in a store: every \<^verbatim>\<open>ParentsStack\<close> node and
  every \<^verbatim>\<open>JSONState\<close> object has an address (its index in the store), a field that refers to
  an object holds an address, and \<^verbatim>\<open>new\<close> appends an object to the store.  The functions of
  this section follow \<^verbatim>\<open>tokenize\<close> statement by statement once more, with every read of a
  field as a read of the store and every \<^verbatim>\<open>new\<close> as an allocation.  A read at an address
  outside the store, which no reference of a running program gives, is the error
  \<open>DanglingReference\<close>.
\<close>

record ParentsStackObj =
  parentF :: "nat option"
  typeF :: JSONParent

record 's JSONStateObj =
  stateDataF :: "'s option"
  scanErrorF :: "ScanError option"
  lastWasColonF :: bool
  parentsF :: "nat option"

record 's Store =
  frames :: "ParentsStackObj list"
  states :: "'s JSONStateObj list"

datatype errorS = Thrown error | DanglingReference

definition lookupFrame :: "'s Store \<Rightarrow> nat \<Rightarrow> ParentsStackObj option" where
  "lookupFrame h a = (if a < length (frames h) then Some (frames h ! a) else None)"

definition lookupState :: "'s Store \<Rightarrow> nat \<Rightarrow> 's JSONStateObj option" where
  "lookupState h a = (if a < length (states h) then Some (states h ! a) else None)"

text \<open>\<^verbatim>\<open>new ParentsStack(parent, type)\<close> and \<^verbatim>\<open>new JSONState(...)\<close>.\<close>

definition newParentsStack :: "'s Store \<Rightarrow> nat option \<Rightarrow> JSONParent \<Rightarrow> nat \<times> 's Store" where
  "newParentsStack h p ty =
     (length (frames h), h\<lparr>frames := frames h @ [\<lparr>parentF = p, typeF = ty\<rparr>]\<rparr>)"

definition newJSONState :: "'s Store \<Rightarrow> 's JSONStateObj \<Rightarrow> nat \<times> 's Store" where
  "newJSONState h obj = (length (states h), h\<lparr>states := states h @ [obj]\<rparr>)"

definition pushS :: "'s Store \<Rightarrow> nat option \<Rightarrow> JSONParent \<Rightarrow> nat option \<times> 's Store" where
  "pushS h p ty = (Some (fst (newParentsStack h p ty)), snd (newParentsStack h p ty))"

definition popS :: "'s Store \<Rightarrow> nat option \<Rightarrow> errorS + nat option" where
  "popS h p =
     (case p of
        None \<Rightarrow> Inr None
      | Some a \<Rightarrow> (case lookupFrame h a of
                    None \<Rightarrow> Inl DanglingReference
                  | Some f \<Rightarrow> Inr (parentF f)))"

record 's TokenizeVarsS =
  store :: "'s Store"
  scannerS :: Scanner
  lastWasColonS :: bool
  parentsS :: "nat option"
  openBracesCountS :: int
  adjustOffsetS :: bool
  tokensS :: "IToken list"
  endStateS :: nat

definition openBraceCaseS ::
  "GlobalLength \<Rightarrow> string \<Rightarrow> string option \<Rightarrow> int \<Rightarrow> 's TokenizeVarsS
     \<Rightarrow> errorS + 's TokenizeVarsS \<times> TokenLocals" where
  "openBraceCaseS globalLength line languageId offset v =
     (let pushed = pushS (store v) (parentsS v) Object;
          v1 = v\<lparr>parentsS := fst pushed, store := snd pushed\<rparr>;
          plain = \<lparr>typeL = TOKEN_DELIM_OBJECT, skip = False, postmanVariablesInString = []\<rparr>;
          untyped = \<lparr>typeL = [], skip = False, postmanVariablesInString = []\<rparr>
      in if openBracesCountS v = 2 \<and> languageId = Some postman_json then
           (let sfdb = stringFromDoubleBraces line (scannerS v)
            in case findClosestDelimiter globalLength sfdb doubleBraceDelimiters of
                 Inl e \<Rightarrow> Inl (Thrown e)
               | Inr delimiterIndex \<Rightarrow>
                   if delimiterIndex \<ge> 0 then
                      (let delimitedString = substring sfdb 0 delimiterIndex
                       in case createPostmanVariableScanner delimitedString (offset - 1)
                                 (lastWasColonS v) False of
                            Inl e \<Rightarrow> Inl (Thrown e)
                          | Inr toks \<Rightarrow>
                              if toks \<noteq> [] then
                                (case endIndex (last toks) of
                                   None \<Rightarrow> Inl (Thrown NaNPosition)
                                 | Some e \<Rightarrow>
                                     (case popS (store v1) (parentsS v1) of
                                        Inl err \<Rightarrow> Inl err
                                      | Inr p1 \<Rightarrow>
                                          (case popS (store v1) p1 of
                                             Inl err \<Rightarrow> Inl err
                                           | Inr p2 \<Rightarrow>
                                               Inr (v1\<lparr>tokensS := butlast (tokensS v) @ toks,
                                                       scannerS := setPosition (scannerS v) (e + 1),
                                                       parentsS := p2,
                                                       lastWasColonS := False\<rparr>,
                                                    untyped\<lparr>skip := True\<rparr>))))
                              else Inr (v1\<lparr>lastWasColonS := False\<rparr>, untyped))
                    else Inr (v1\<lparr>lastWasColonS := False\<rparr>, plain))
         else Inr (v1\<lparr>lastWasColonS := False\<rparr>, plain))"

definition stringLiteralCaseS ::
  "string \<Rightarrow> string option \<Rightarrow> int \<Rightarrow> 's TokenizeVarsS \<Rightarrow> errorS + 's TokenizeVarsS \<times> TokenLocals" where
  "stringLiteralCaseS line languageId offset v =
     (case (case parentsS v of
              None \<Rightarrow> Inr Object
            | Some a \<Rightarrow> (case lookupFrame (store v) a of
                          None \<Rightarrow> Inl DanglingReference
                        | Some f \<Rightarrow> Inr (typeF f))) of
        Inl err \<Rightarrow> Inl err
      | Inr currentParent \<Rightarrow>
          (let inArray = (currentParent = Array);
               inValue = (lastWasColonS v \<or> inArray);
               ty = (if inValue \<or> inArray then TOKEN_VALUE_STRING else TOKEN_PROPERTY_NAME)
           in if languageId = Some postman_json then
                (let tokenValue = substr line (getTokenOffset (scannerS v) + 1)
                                     (getTokenLength (scannerS v) - 2)
                 in case createPostmanVariableScanner tokenValue (offset + 1) inValue True of
                      Inl e \<Rightarrow> Inl (Thrown e)
                    | Inr toks \<Rightarrow>
                        Inr (v\<lparr>lastWasColonS := False\<rparr>,
                             \<lparr>typeL = ty, skip = False, postmanVariablesInString = toks\<rparr>))
              else Inr (v\<lparr>lastWasColonS := False\<rparr>,
                        \<lparr>typeL = ty, skip = False, postmanVariablesInString = []\<rparr>)))"

definition closeCaseS :: "string \<Rightarrow> 's TokenizeVarsS \<Rightarrow> errorS + 's TokenizeVarsS \<times> TokenLocals" where
  "closeCaseS ty v =
     (case popS (store v) (parentsS v) of
        Inl err \<Rightarrow> Inl err
      | Inr p \<Rightarrow> Inr (v\<lparr>parentsS := p, lastWasColonS := False\<rparr>,
                      \<lparr>typeL = ty, skip = False, postmanVariablesInString = []\<rparr>))"

definition kindSwitchS ::
  "GlobalLength \<Rightarrow> string \<Rightarrow> string option \<Rightarrow> int \<Rightarrow> SyntaxKind \<Rightarrow> 's TokenizeVarsS
     \<Rightarrow> errorS + 's TokenizeVarsS \<times> TokenLocals" where
  "kindSwitchS globalLength line languageId offset kind v =
     (let simple = (\<lambda>ty. \<lparr>typeL = ty, skip = False, postmanVariablesInString = []\<rparr>)
      in case kind of
           OpenBraceToken \<Rightarrow> openBraceCaseS globalLength line languageId offset v
         | CloseBraceToken \<Rightarrow> closeCaseS TOKEN_DELIM_OBJECT v
         | OpenBracketToken \<Rightarrow>
             (let pushed = pushS (store v) (parentsS v) Array
              in Inr (v\<lparr>parentsS := fst pushed, store := snd pushed, lastWasColonS := False\<rparr>,
                      simple TOKEN_DELIM_ARRAY))
         | CloseBracketToken \<Rightarrow> closeCaseS TOKEN_DELIM_ARRAY v
         | ColonToken \<Rightarrow> Inr (v\<lparr>lastWasColonS := True\<rparr>, simple TOKEN_DELIM_COLON)
         | CommaToken \<Rightarrow> Inr (v\<lparr>lastWasColonS := False\<rparr>, simple TOKEN_DELIM_COMMA)
         | TrueKeyword \<Rightarrow> Inr (v\<lparr>lastWasColonS := False\<rparr>, simple TOKEN_VALUE_BOOLEAN)
         | FalseKeyword \<Rightarrow> Inr (v\<lparr>lastWasColonS := False\<rparr>, simple TOKEN_VALUE_BOOLEAN)
         | NullKeyword \<Rightarrow> Inr (v\<lparr>lastWasColonS := False\<rparr>, simple TOKEN_VALUE_NULL)
         | StringLiteral \<Rightarrow> stringLiteralCaseS line languageId offset v
         | NumericLiteral \<Rightarrow> Inr (v\<lparr>lastWasColonS := False\<rparr>, simple TOKEN_VALUE_NUMBER)
         | _ \<Rightarrow> Inr (v, simple []))"

text \<open>What a call returns: the result (the tokens and the address of the end state, or an
  error) and the store after the call.\<close>

type_synonym 's resultS = "(errorS + IToken list \<times> nat) \<times> 's Store"

definition tokenizeStepS ::
  "GlobalLength \<Rightarrow> bool \<Rightarrow> string \<Rightarrow> nat \<Rightarrow> int \<Rightarrow> string option \<Rightarrow> int \<Rightarrow> 's TokenizeVarsS
     \<Rightarrow> ('s resultS, 's TokenizeVarsS) iteration" where
  "tokenizeStepS globalLength comments line state offsetDelta languageId n v =
     (let offset0 = offsetDelta + getPosition (scannerS v);
          sc = scan (scannerS v);
          kind = token sc
      in if kind = EOF then Exit (Inr (tokensS v, endStateS v), store v)
         else if offset0 = offsetDelta + getPosition sc
         then Exit (Inl (Thrown ScannerDidNotAdvance), store v)
         else
           (let offset = (if adjustOffsetS v then offset0 - n else offset0);
                v1 = v\<lparr>scannerS := sc,
                       adjustOffsetS := (n > 0),
                       openBracesCountS := (if kind = OpenBraceToken then openBracesCountS v + 1
                                            else 0)\<rparr>
            in case kindSwitchS globalLength line languageId offset kind v1 of
                 Inl e \<Rightarrow> Exit (Inl e, store v1)
               | Inr (v2, l) \<Rightarrow>
                   (case lookupState (store v2) state of
                      None \<Rightarrow> Exit (Inl DanglingReference, store v2)
                    | Some st \<Rightarrow>
                        (let ty = commentSwitch comments kind (typeL l);
                             created = newJSONState (store v2)
                                         \<lparr>stateDataF = stateDataF st,
                                          scanErrorF = Some (getTokenError (scannerS v2)),
                                          lastWasColonF = lastWasColonS v2,
                                          parentsF = parentsS v2\<rparr>;
                             toks1 = (if \<not> skip l
                                      then tokensS v2 @ [\<lparr>startIndex = offset, scopes = ty,
                                                          endIndex = None\<rparr>]
                                      else tokensS v2);
                             toks2 = (if postmanVariablesInString l \<noteq> []
                                      then toks1 @ postmanVariablesInString l else toks1)
                         in Continue (v2\<lparr>store := snd created, endStateS := fst created,
                                         tokensS := toks2\<rparr>)))))"

partial_function (option) tokenizeLoopS ::
  "GlobalLength \<Rightarrow> bool \<Rightarrow> string \<Rightarrow> nat \<Rightarrow> int \<Rightarrow> string option \<Rightarrow> int \<Rightarrow> 's TokenizeVarsS
     \<Rightarrow> 's resultS option" where
  "tokenizeLoopS globalLength comments line state offsetDelta languageId n v =
     (case tokenizeStepS globalLength comments line state offsetDelta languageId n v of
        Exit r \<Rightarrow> Some r
      | Continue v' \<Rightarrow> tokenizeLoopS globalLength comments line state offsetDelta languageId n v')"

declare tokenizeLoopS.simps [code]

text \<open>\<^verbatim>\<open>tokenize\<close> on the store \<open>h\<close>, for the state object at the address \<open>state\<close>.\<close>

definition tokenizeS ::
  "GlobalLength \<Rightarrow> bool \<Rightarrow> string \<Rightarrow> 's Store \<Rightarrow> nat \<Rightarrow> int \<Rightarrow> string option
     \<Rightarrow> 's resultS option" where
  "tokenizeS globalLength comments line h state offsetDelta languageId =
     (case lookupState h state of
        None \<Rightarrow> Some (Inl DanglingReference, h)
      | Some st \<Rightarrow>
          (let line' = insertedPrefix (scanErrorF st) @ line;
               numberOfInsertedCharacters = int (length (insertedPrefix (scanErrorF st)));
               cloned = newJSONState h st
           in tokenizeLoopS globalLength comments line' state offsetDelta languageId numberOfInsertedCharacters
                \<lparr>store = snd cloned,
                 scannerS = createScanner line',
                 lastWasColonS = lastWasColonF st,
                 parentsS = parentsF st,
                 openBracesCountS = 0,
                 adjustOffsetS = False,
                 tokensS = [],
                 endStateS = fst cloned\<rparr>))"

subsection \<open>The store version computes what the value version computes\<close>

text \<open>The chain of markers that an address of the store stands for.  In a store built by
  allocation the parent of a node has a smaller address than the node.\<close>

function absStack :: "ParentsStackObj list \<Rightarrow> nat option \<Rightarrow> ParentsStack option" where
  "absStack fs None = None"
| "absStack fs (Some a) =
     (if a < length fs
      then Some (ParentsStack
                   (case parentF (fs ! a) of
                      None \<Rightarrow> None
                    | Some b \<Rightarrow> if b < a then absStack fs (Some b) else None)
                   (typeF (fs ! a)))
      else None)"
  by pat_completeness auto
termination
  by (relation "measure (\<lambda>(fs, p). case p of None \<Rightarrow> 0 | Some a \<Rightarrow> Suc a)") auto

declare absStack.simps(2) [simp del]

definition absObj :: "ParentsStackObj list \<Rightarrow> 's JSONStateObj \<Rightarrow> 's JSONState" where
  "absObj fs st = \<lparr>stateData = stateDataF st, scanError = scanErrorF st,
                   lastWasColon = lastWasColonF st, parents = absStack fs (parentsF st)\<rparr>"

definition wfFrames :: "ParentsStackObj list \<Rightarrow> bool" where
  "wfFrames fs \<longleftrightarrow> (\<forall>a < length fs. \<forall>b. parentF (fs ! a) = Some b \<longrightarrow> b < a)"

definition validRef :: "ParentsStackObj list \<Rightarrow> nat option \<Rightarrow> bool" where
  "validRef fs p \<longleftrightarrow> (\<forall>a. p = Some a \<longrightarrow> a < length fs)"

lemma absStack_append_Some: "a < length fs \<Longrightarrow> absStack (fs @ gs) (Some a) = absStack fs (Some a)"
proof (induction a rule: less_induct)
  case (less a)
  have "(case parentF (fs ! a) of None \<Rightarrow> None
         | Some b \<Rightarrow> if b < a then absStack (fs @ gs) (Some b) else None) =
        (case parentF (fs ! a) of None \<Rightarrow> None
         | Some b \<Rightarrow> if b < a then absStack fs (Some b) else None)"
    using less by (auto split: option.splits)
  then show ?case
    using less.prems by (simp add: absStack.simps(2) nth_append)
qed

lemma absStack_append: "validRef fs p \<Longrightarrow> absStack (fs @ gs) p = absStack fs p"
  by (cases p) (simp_all add: validRef_def absStack_append_Some)

lemma absStack_new:
  "validRef fs p \<Longrightarrow>
   absStack (fs @ [\<lparr>parentF = p, typeF = ty\<rparr>]) (Some (length fs)) =
   Some (ParentsStack (absStack fs p) ty)"
  by (subst absStack.simps(2), cases p) (simp_all add: validRef_def absStack_append_Some)

lemma absStack_parent:
  "wfFrames fs \<Longrightarrow> a < length fs \<Longrightarrow>
   absStack fs (parentF (fs ! a)) = ParentsStack_pop (absStack fs (Some a))"
  by (cases "parentF (fs ! a)")
     (auto simp: absStack.simps(2) ParentsStack_pop_def wfFrames_def)

lemma absStack_type:
  "a < length fs \<Longrightarrow> (case absStack fs (Some a) of Some p \<Rightarrow> type p | None \<Rightarrow> Object) = typeF (fs ! a)"
  by (simp add: absStack.simps(2))

lemma wfFrames_new: "wfFrames fs \<Longrightarrow> validRef fs p \<Longrightarrow> wfFrames (fs @ [\<lparr>parentF = p, typeF = ty\<rparr>])"
  by (auto simp: wfFrames_def validRef_def nth_append less_Suc_eq)

lemma validRef_parent: "wfFrames fs \<Longrightarrow> a < length fs \<Longrightarrow> validRef fs (parentF (fs ! a))"
  by (auto simp: wfFrames_def validRef_def dest: less_trans)

lemma validRef_append: "validRef fs p \<Longrightarrow> validRef (fs @ gs) p"
  by (auto simp: validRef_def)

lemma popS_abs:
  assumes "wfFrames (frames h)" "validRef (frames h) p"
  shows "\<exists>q. popS h p = Inr q \<and> validRef (frames h) q \<and>
             absStack (frames h) q = ParentsStack_pop (absStack (frames h) p)"
proof (cases p)
  case None
  then show ?thesis by (simp add: popS_def validRef_def ParentsStack_pop_def)
next
  case (Some a)
  then have a: "a < length (frames h)" using assms(2) by (simp add: validRef_def)
  show ?thesis
    using Some a absStack_parent[OF assms(1) a] validRef_parent[OF assms(1) a]
    by (simp add: popS_def lookupFrame_def)
qed

lemma pushS_abs:
  assumes "wfFrames (frames h)" "validRef (frames h) p"
  shows "wfFrames (frames (snd (pushS h p ty)))"
    and "validRef (frames (snd (pushS h p ty))) (fst (pushS h p ty))"
    and "absStack (frames (snd (pushS h p ty))) (fst (pushS h p ty)) =
         ParentsStack_push (absStack (frames h) p) ty"
    and "states (snd (pushS h p ty)) = states h"
    and "frames (snd (pushS h p ty)) = frames h @ [\<lparr>parentF = p, typeF = ty\<rparr>]"
  using assms
  by (simp_all add: pushS_def newParentsStack_def wfFrames_new absStack_new validRef_def
        ParentsStack_push_def)

text \<open>The loop variables of the two versions correspond.\<close>

definition sim :: "'s TokenizeVarsS \<Rightarrow> 's TokenizeVars \<Rightarrow> bool" where
  "sim vS v \<longleftrightarrow>
     wfFrames (frames (store vS)) \<and> validRef (frames (store vS)) (parentsS vS) \<and>
     scanner v = scannerS vS \<and> lastWasColonV v = lastWasColonS vS \<and>
     parentsV v = absStack (frames (store vS)) (parentsS vS) \<and>
     openBracesCount v = openBracesCountS vS \<and> adjustOffset v = adjustOffsetS vS \<and>
     tokens (ret v) = tokensS vS"

definition simK ::
  "'s TokenizeVarsS \<Rightarrow> 's TokenizeVars \<Rightarrow> errorS + 's TokenizeVarsS \<times> TokenLocals
     \<Rightarrow> error + 's TokenizeVars \<times> TokenLocals \<Rightarrow> bool" where
  "simK vS v rS r \<longleftrightarrow>
     (case rS of
        Inl DanglingReference \<Rightarrow> False
      | Inl (Thrown e) \<Rightarrow> r = Inl e
      | Inr (vS', l) \<Rightarrow>
          (\<exists>v'. r = Inr (v', l) \<and> sim vS' v' \<and> states (store vS') = states (store vS) \<and>
                endStateS vS' = endStateS vS \<and> endState (ret v') = endState (ret v)))"

lemma pop_push: "ParentsStack_pop (ParentsStack_push p ty) = p"
  by (simp add: ParentsStack_pop_def ParentsStack_push_def)

lemma openBraceCase_sim:
  assumes s: "sim vS v"
  shows "simK vS v (openBraceCaseS g line lang off vS) (openBraceCase g line lang off v)"
proof -
  have wf: "wfFrames (frames (store vS))" and valid: "validRef (frames (store vS)) (parentsS vS)"
    and sc: "scanner v = scannerS vS" and lwc: "lastWasColonV v = lastWasColonS vS"
    and ps: "parentsV v = absStack (frames (store vS)) (parentsS vS)"
    and obc: "openBracesCount v = openBracesCountS vS"
    and ao: "adjustOffset v = adjustOffsetS vS" and tk: "tokens (ret v) = tokensS vS"
    using s by (simp_all add: sim_def)
  define pu where "pu = pushS (store vS) (parentsS vS) Object"
  define vS1 where "vS1 = vS\<lparr>parentsS := fst pu, store := snd pu\<rparr>"
  define v1 where "v1 = v\<lparr>parentsV := ParentsStack_push (parentsV v) Object\<rparr>"
  note pa = pushS_abs[OF wf valid, of Object, folded pu_def]
  have s1: "sim vS1 v1"
    using s pa by (simp add: sim_def vS1_def v1_def)
  have k1: "states (store vS1) = states (store vS)" "endStateS vS1 = endStateS vS"
    "endState (ret v1) = endState (ret v)"
    using pa by (simp_all add: vS1_def v1_def)
  have pop1: "popS (store vS1) (parentsS vS1) = Inr (parentsS vS)"
    using pa(5) by (simp add: vS1_def popS_def lookupFrame_def pu_def pushS_def newParentsStack_def)
  have v1': "validRef (frames (store vS1)) (parentsS vS)"
    using valid pa(5) by (simp add: vS1_def validRef_append)
  obtain p2 where pop2: "popS (store vS1) (parentsS vS) = Inr p2"
    and val2: "validRef (frames (store vS1)) p2"
    and abs2: "absStack (frames (store vS1)) p2
                 = ParentsStack_pop (absStack (frames (store vS1)) (parentsS vS))"
    using popS_abs[of "store vS1" "parentsS vS"] pa(1) v1' by (auto simp: vS1_def)
  have abs2': "absStack (frames (store vS1)) p2 = ParentsStack_pop (ParentsStack_pop (parentsV v1))"
    using abs2 pa(5) valid ps by (simp add: vS1_def v1_def pop_push absStack_append)
  define plain where
    "plain = \<lparr>typeL = TOKEN_DELIM_OBJECT, skip = False, postmanVariablesInString = []\<rparr>"
  define untyped where
    "untyped = \<lparr>typeL = [], skip = False, postmanVariablesInString = []\<rparr>"
  define found where
    "found = findClosestDelimiter g (stringFromDoubleBraces line (scannerS vS))
               doubleBraceDelimiters"
  define det where
    "det i = createPostmanVariableScanner
               (substring (stringFromDoubleBraces line (scannerS vS)) 0 i)
               (off - 1) (lastWasColonS vS) False" for i
  define entered where
    "entered \<longleftrightarrow> openBracesCountS vS = 2 \<and> lang = Some postman_json"
  define afterS where
    "afterS i =
       (if 0 \<le> i then
          (case det i of
             Inl e \<Rightarrow> Inl (Thrown e)
           | Inr toks \<Rightarrow>
               if toks \<noteq> [] then
                 (case endIndex (last toks) of
                    None \<Rightarrow> Inl (Thrown NaNPosition)
                  | Some e \<Rightarrow>
                      Inr (vS1\<lparr>tokensS := butlast (tokensS vS) @ toks,
                              scannerS := setPosition (scannerS vS) (e + 1),
                              parentsS := p2, lastWasColonS := False\<rparr>,
                           untyped\<lparr>skip := True\<rparr>))
               else Inr (vS1\<lparr>lastWasColonS := False\<rparr>, untyped))
        else Inr (vS1\<lparr>lastWasColonS := False\<rparr>, plain))" for i
  define afterV where
    "afterV i =
       (if 0 \<le> i then
          (case det i of
             Inl e \<Rightarrow> Inl e
           | Inr toks \<Rightarrow>
               if toks \<noteq> [] then
                 (case endIndex (last toks) of
                    None \<Rightarrow> Inl NaNPosition
                  | Some e \<Rightarrow>
                      Inr (v1\<lparr>ret := (ret v)\<lparr>tokens := butlast (tokens (ret v)) @ toks\<rparr>,
                             scanner := setPosition (scanner v) (e + 1),
                             parentsV := ParentsStack_pop (ParentsStack_pop (parentsV v1)),
                             lastWasColonV := False\<rparr>,
                           untyped\<lparr>skip := True\<rparr>))
               else Inr (v1\<lparr>lastWasColonV := False\<rparr>, untyped))
        else Inr (v1\<lparr>lastWasColonV := False\<rparr>, plain))" for i
  have S: "openBraceCaseS g line lang off vS =
      (if entered then
         (case found of Inl e \<Rightarrow> Inl (Thrown e) | Inr i \<Rightarrow> afterS i)
       else Inr (vS1\<lparr>lastWasColonS := False\<rparr>, plain))"
    unfolding openBraceCaseS_def Let_def pu_def[symmetric] vS1_def[symmetric]
      plain_def[symmetric] untyped_def[symmetric] found_def[symmetric]
    by (simp add: entered_def afterS_def det_def pop1 pop2 split: sum.splits option.splits)
  have P: "openBraceCase g line lang off v =
      (if entered then
         (case found of Inl e \<Rightarrow> Inl e | Inr i \<Rightarrow> afterV i)
       else Inr (v1\<lparr>lastWasColonV := False\<rparr>, plain))"
    unfolding openBraceCase_def Let_def v1_def[symmetric]
      plain_def[symmetric] untyped_def[symmetric] sc lwc obc found_def[symmetric]
    by (simp add: entered_def afterV_def det_def sc tk split: sum.splits option.splits)
  have plainCase: "sim (vS1\<lparr>lastWasColonS := False\<rparr>) (v1\<lparr>lastWasColonV := False\<rparr>)"
    using s1 by (simp add: sim_def)
  have okCase: "sim (vS1\<lparr>tokensS := butlast (tokensS vS) @ toks,
                         scannerS := setPosition (scannerS vS) (e + 1),
                         parentsS := p2, lastWasColonS := False\<rparr>)
                    (v1\<lparr>ret := (ret v)\<lparr>tokens := butlast (tokens (ret v)) @ toks\<rparr>,
                        scanner := setPosition (scanner v) (e + 1),
                        parentsV := ParentsStack_pop (ParentsStack_pop (parentsV v1)),
                        lastWasColonV := False\<rparr>)" for toks e
    using s1 val2 abs2' sc tk by (simp add: sim_def)
  have after: "simK vS v (afterS i) (afterV i)" for i
  proof (cases "0 \<le> i")
    case False
    then show ?thesis using plainCase k1 by (simp add: afterS_def afterV_def simK_def)
  next
    case True
    show ?thesis
    proof (cases "det i")
      case (Inl e)
      then show ?thesis using True by (simp add: afterS_def afterV_def simK_def)
    next
      case (Inr toks)
      show ?thesis
      proof (cases "toks = []")
        case True
        then show ?thesis
          using \<open>0 \<le> i\<close> Inr plainCase k1 by (simp add: afterS_def afterV_def simK_def)
      next
        case False
        show ?thesis
        proof (cases "endIndex (last toks)")
          case None
          then show ?thesis
            using \<open>0 \<le> i\<close> Inr False by (simp add: afterS_def afterV_def simK_def)
        next
          case (Some e)
          then show ?thesis
            using \<open>0 \<le> i\<close> Inr False okCase k1
            by (simp add: afterS_def afterV_def simK_def vS1_def v1_def)
        qed
      qed
    qed
  qed
  show ?thesis
  proof (cases entered)
    case False
    then show ?thesis using plainCase k1 by (simp add: S P simK_def)
  next
    case True
    show ?thesis
    proof (cases found)
      case (Inl e)
      then show ?thesis using True by (simp add: S P simK_def)
    next
      case (Inr i)
      then show ?thesis using True after[of i] by (simp add: S P)
    qed
  qed
qed

lemma stringLiteralCase_sim:
  assumes s: "sim vS v"
  shows "simK vS v (stringLiteralCaseS line lang off vS) (stringLiteralCase line lang off v)"
proof -
  have valid: "validRef (frames (store vS)) (parentsS vS)"
    and sc: "scanner v = scannerS vS" and lwc: "lastWasColonV v = lastWasColonS vS"
    and ps: "parentsV v = absStack (frames (store vS)) (parentsS vS)"
    using s by (simp_all add: sim_def)
  define cp where "cp = (case parentsV v of Some p \<Rightarrow> type p | None \<Rightarrow> Object)"
  have cpS: "(case parentsS vS of
                None \<Rightarrow> Inr Object
              | Some a \<Rightarrow> (case lookupFrame (store vS) a of
                            None \<Rightarrow> Inl DanglingReference
                          | Some f \<Rightarrow> Inr (typeF f))) = Inr cp"
  proof (cases "parentsS vS")
    case None
    then show ?thesis by (simp add: cp_def ps)
  next
    case (Some a)
    then have "a < length (frames (store vS))" using valid by (simp add: validRef_def)
    then show ?thesis
      using Some absStack_type[of a "frames (store vS)"] by (simp add: cp_def ps lookupFrame_def)
  qed
  define det where
    "det = createPostmanVariableScanner
             (substr line (getTokenOffset (scannerS vS) + 1) (getTokenLength (scannerS vS) - 2))
             (off + 1) (lastWasColonS vS \<or> cp = Array) True"
  define ty where
    "ty = (if (lastWasColonS vS \<or> cp = Array) \<or> cp = Array
           then TOKEN_VALUE_STRING else TOKEN_PROPERTY_NAME)"
  have S: "stringLiteralCaseS line lang off vS =
      (if lang = Some postman_json then
         (case det of
            Inl e \<Rightarrow> Inl (Thrown e)
          | Inr toks \<Rightarrow> Inr (vS\<lparr>lastWasColonS := False\<rparr>,
                             \<lparr>typeL = ty, skip = False, postmanVariablesInString = toks\<rparr>))
       else Inr (vS\<lparr>lastWasColonS := False\<rparr>,
                 \<lparr>typeL = ty, skip = False, postmanVariablesInString = []\<rparr>))"
    by (simp add: stringLiteralCaseS_def cpS Let_def det_def ty_def split: sum.splits)
  have P: "stringLiteralCase line lang off v =
      (if lang = Some postman_json then
         (case det of
            Inl e \<Rightarrow> Inl e
          | Inr toks \<Rightarrow> Inr (v\<lparr>lastWasColonV := False\<rparr>,
                             \<lparr>typeL = ty, skip = False, postmanVariablesInString = toks\<rparr>))
       else Inr (v\<lparr>lastWasColonV := False\<rparr>,
                 \<lparr>typeL = ty, skip = False, postmanVariablesInString = []\<rparr>))"
    unfolding stringLiteralCase_def cp_def[symmetric]
    by (simp add: Let_def sc lwc det_def ty_def split: sum.splits)
  have upd: "sim (vS\<lparr>lastWasColonS := False\<rparr>) (v\<lparr>lastWasColonV := False\<rparr>)"
    using s by (simp add: sim_def)
  show ?thesis
  proof (cases "lang = Some postman_json")
    case False
    then show ?thesis unfolding S P using upd by (simp add: simK_def)
  next
    case True
    then show ?thesis unfolding S P using upd by (cases det) (simp_all add: simK_def)
  qed
qed

lemma closeCase_sim:
  assumes s: "sim vS v"
  shows "simK vS v (closeCaseS ty vS)
           (Inr (v\<lparr>parentsV := ParentsStack_pop (parentsV v), lastWasColonV := False\<rparr>,
                 \<lparr>typeL = ty, skip = False, postmanVariablesInString = []\<rparr>))"
proof -
  have wf: "wfFrames (frames (store vS))" and valid: "validRef (frames (store vS)) (parentsS vS)"
    and ps: "parentsV v = absStack (frames (store vS)) (parentsS vS)"
    using s by (simp_all add: sim_def)
  obtain q where q: "popS (store vS) (parentsS vS) = Inr q" "validRef (frames (store vS)) q"
    "absStack (frames (store vS)) q = ParentsStack_pop (absStack (frames (store vS)) (parentsS vS))"
    using popS_abs[OF wf valid] by auto
  have "sim (vS\<lparr>parentsS := q, lastWasColonS := False\<rparr>)
            (v\<lparr>parentsV := ParentsStack_pop (parentsV v), lastWasColonV := False\<rparr>)"
    using s q by (simp add: sim_def)
  then show ?thesis by (simp add: closeCaseS_def q(1) simK_def)
qed

lemma simple_sim:
  assumes "sim vS v"
  shows "simK vS v (Inr (vS\<lparr>lastWasColonS := b\<rparr>, l)) (Inr (v\<lparr>lastWasColonV := b\<rparr>, l))"
    and "simK vS v (Inr (vS, l)) (Inr (v, l))"
  using assms by (simp_all add: simK_def sim_def)

lemma openBracket_sim:
  assumes s: "sim vS v"
  shows "simK vS v
           (Inr (vS\<lparr>parentsS := fst (pushS (store vS) (parentsS vS) Array),
                    store := snd (pushS (store vS) (parentsS vS) Array),
                    lastWasColonS := False\<rparr>, l))
           (Inr (v\<lparr>parentsV := ParentsStack_push (parentsV v) Array, lastWasColonV := False\<rparr>, l))"
proof -
  have wf: "wfFrames (frames (store vS))" and valid: "validRef (frames (store vS)) (parentsS vS)"
    using s by (simp_all add: sim_def)
  note pa = pushS_abs[OF wf valid, of Array]
  show ?thesis using s pa by (simp add: simK_def sim_def)
qed

lemma kindSwitch_sim:
  assumes s: "sim vS v"
  shows "simK vS v (kindSwitchS g line lang off kind vS) (kindSwitch g line lang off kind v)"
proof (cases kind)
  case OpenBraceToken
  then show ?thesis
    using openBraceCase_sim[OF s] by (simp add: kindSwitchS_def kindSwitch_def)
next
  case CloseBraceToken
  then show ?thesis
    using closeCase_sim[OF s] by (simp add: kindSwitchS_def kindSwitch_def)
next
  case OpenBracketToken
  then show ?thesis
    using openBracket_sim[OF s] by (simp add: kindSwitchS_def kindSwitch_def Let_def)
next
  case CloseBracketToken
  then show ?thesis
    using closeCase_sim[OF s] by (simp add: kindSwitchS_def kindSwitch_def)
next
  case StringLiteral
  then show ?thesis
    using stringLiteralCase_sim[OF s] by (simp add: kindSwitchS_def kindSwitch_def)
qed (use simple_sim[OF s] in \<open>simp_all add: kindSwitchS_def kindSwitch_def\<close>)

text \<open>The loop invariant: the variables correspond, the input state is an object of the store
  with the state data of the value-level input state, and the end state object stands for the
  end state of the value version.\<close>

definition simL :: "nat \<Rightarrow> 's JSONState \<Rightarrow> 's TokenizeVarsS \<Rightarrow> 's TokenizeVars \<Rightarrow> bool" where
  "simL state st0 vS v \<longleftrightarrow>
     sim vS v \<and> state < length (states (store vS)) \<and>
     stateDataF (states (store vS) ! state) = stateData st0 \<and>
     endStateS vS < length (states (store vS)) \<and>
     absObj (frames (store vS)) (states (store vS) ! endStateS vS) = endState (ret v)"

definition simR :: "'s resultS \<Rightarrow> error + 's ILineTokens \<Rightarrow> bool" where
  "simR rS r \<longleftrightarrow>
     (case fst rS of
        Inl DanglingReference \<Rightarrow> False
      | Inl (Thrown e) \<Rightarrow> r = Inl e
      | Inr (toks, a) \<Rightarrow>
          a < length (states (snd rS)) \<and>
          r = Inr \<lparr>tokens = toks,
                   endState = absObj (frames (snd rS)) (states (snd rS) ! a)\<rparr>)"

definition simI ::
  "nat \<Rightarrow> 's JSONState \<Rightarrow> ('s resultS, 's TokenizeVarsS) iteration
     \<Rightarrow> (error + 's ILineTokens, 's TokenizeVars) iteration \<Rightarrow> bool" where
  "simI state st0 iS i \<longleftrightarrow>
     (case iS of
        Exit rS \<Rightarrow> (\<exists>r. i = Exit r \<and> simR rS r)
      | Continue vS' \<Rightarrow> (\<exists>v'. i = Continue v' \<and> simL state st0 vS' v'))"

lemma ILineTokens_eq: "r = \<lparr>tokens = tokens r, endState = endState r\<rparr>"
  by simp

lemma tokenizeStep_sim:
  assumes s: "simL state st0 vS v"
  shows "simI state st0 (tokenizeStepS g comments line state offsetDelta languageId n vS)
           (tokenizeStep g comments line st0 offsetDelta languageId n v)"
proof -
  have sm: "sim vS v" and lt: "state < length (states (store vS))"
    and sd: "stateDataF (states (store vS) ! state) = stateData st0"
    and el: "endStateS vS < length (states (store vS))"
    and es: "absObj (frames (store vS)) (states (store vS) ! endStateS vS) = endState (ret v)"
    using s by (simp_all add: simL_def)
  have scn: "scanner v = scannerS vS" and obc: "openBracesCount v = openBracesCountS vS"
    and ao: "adjustOffset v = adjustOffsetS vS" and tk: "tokens (ret v) = tokensS vS"
    using sm by (simp_all add: sim_def)
  define sc where "sc = scan (scannerS vS)"
  define offset where
    "offset = (if adjustOffsetS vS then offsetDelta + getPosition (scannerS vS) - n
               else offsetDelta + getPosition (scannerS vS))"
  define vS1 where
    "vS1 = vS\<lparr>scannerS := sc, adjustOffsetS := (n > 0),
              openBracesCountS := (if token sc = OpenBraceToken then openBracesCountS vS + 1
                                   else 0)\<rparr>"
  define v1 where
    "v1 = v\<lparr>scanner := sc, adjustOffset := (n > 0),
            openBracesCount := (if token sc = OpenBraceToken then openBracesCountS vS + 1
                                else 0)\<rparr>"
  have s1: "sim vS1 v1" using sm by (simp add: sim_def vS1_def v1_def)
  have st1: "store vS1 = store vS" "endStateS vS1 = endStateS vS"
    "endState (ret v1) = endState (ret v)"
    by (simp_all add: vS1_def v1_def)
  note K = kindSwitch_sim[OF s1, of g line languageId offset "token sc"]
  have V: "tokenizeStep g comments line st0 offsetDelta languageId n v =
     (if token sc = EOF then Exit (Inr (ret v))
      else if offsetDelta + getPosition (scannerS vS) = offsetDelta + getPosition sc
      then Exit (Inl ScannerDidNotAdvance)
      else (case kindSwitch g line languageId offset (token sc) v1 of
              Inl e \<Rightarrow> Exit (Inl e)
            | Inr (v2, l) \<Rightarrow>
                Continue (v2\<lparr>ret := \<lparr>tokens =
                    (if postmanVariablesInString l \<noteq> []
                     then (if \<not> skip l
                           then tokens (ret v2) @ [\<lparr>startIndex = offset,
                                  scopes = commentSwitch comments (token sc) (typeL l),
                                  endIndex = None\<rparr>]
                           else tokens (ret v2)) @ postmanVariablesInString l
                     else (if \<not> skip l
                           then tokens (ret v2) @ [\<lparr>startIndex = offset,
                                  scopes = commentSwitch comments (token sc) (typeL l),
                                  endIndex = None\<rparr>]
                           else tokens (ret v2))),
                  endState = \<lparr>stateData = stateData st0,
                              scanError = Some (getTokenError (scanner v2)),
                              lastWasColon = lastWasColonV v2,
                              parents = parentsV v2\<rparr>\<rparr>\<rparr>)))"
    unfolding tokenizeStep_def Let_def scn obc ao sc_def[symmetric] offset_def[symmetric]
              v1_def[symmetric]
    by (rule refl)
  show ?thesis
  proof (cases "token sc = EOF")
    case True
    have "tokenizeStepS g comments line state offsetDelta languageId n vS =
            Exit (Inr (tokensS vS, endStateS vS), store vS)"
      using True by (simp add: tokenizeStepS_def Let_def sc_def[symmetric])
    moreover have "simR (Inr (tokensS vS, endStateS vS), store vS) (Inr (ret v))"
      using el es tk ILineTokens_eq[of "ret v"] by (simp add: simR_def)
    ultimately show ?thesis using True by (simp add: V simI_def)
  next
    case notEOF: False
    show ?thesis
    proof (cases "offsetDelta + getPosition (scannerS vS) = offsetDelta + getPosition sc")
      case True
      have "tokenizeStepS g comments line state offsetDelta languageId n vS =
              Exit (Inl (Thrown ScannerDidNotAdvance), store vS)"
        using True notEOF by (simp add: tokenizeStepS_def Let_def sc_def[symmetric])
      then show ?thesis using True notEOF by (simp add: V simI_def simR_def)
    next
      case adv: False
      have S: "tokenizeStepS g comments line state offsetDelta languageId n vS =
        (case kindSwitchS g line languageId offset (token sc) vS1 of
           Inl e \<Rightarrow> Exit (Inl e, store vS1)
         | Inr (v2, l) \<Rightarrow>
             (case lookupState (store v2) state of
                None \<Rightarrow> Exit (Inl DanglingReference, store v2)
              | Some st \<Rightarrow>
                  Continue (v2\<lparr>store := snd (newJSONState (store v2)
                                     \<lparr>stateDataF = stateDataF st,
                                      scanErrorF = Some (getTokenError (scannerS v2)),
                                      lastWasColonF = lastWasColonS v2,
                                      parentsF = parentsS v2\<rparr>),
                                endStateS := fst (newJSONState (store v2)
                                     \<lparr>stateDataF = stateDataF st,
                                      scanErrorF = Some (getTokenError (scannerS v2)),
                                      lastWasColonF = lastWasColonS v2,
                                      parentsF = parentsS v2\<rparr>),
                                tokensS :=
                    (if postmanVariablesInString l \<noteq> []
                     then (if \<not> skip l
                           then tokensS v2 @ [\<lparr>startIndex = offset,
                                  scopes = commentSwitch comments (token sc) (typeL l),
                                  endIndex = None\<rparr>]
                           else tokensS v2) @ postmanVariablesInString l
                     else (if \<not> skip l
                           then tokensS v2 @ [\<lparr>startIndex = offset,
                                  scopes = commentSwitch comments (token sc) (typeL l),
                                  endIndex = None\<rparr>]
                           else tokensS v2))\<rparr>)))"
        unfolding tokenizeStepS_def Let_def sc_def[symmetric] offset_def[symmetric]
                  vS1_def[symmetric]
        using notEOF adv by simp
      have V': "tokenizeStep g comments line st0 offsetDelta languageId n v =
         (case kindSwitch g line languageId offset (token sc) v1 of
              Inl e \<Rightarrow> Exit (Inl e)
            | Inr (v2, l) \<Rightarrow>
                Continue (v2\<lparr>ret := \<lparr>tokens =
                    (if postmanVariablesInString l \<noteq> []
                     then (if \<not> skip l
                           then tokens (ret v2) @ [\<lparr>startIndex = offset,
                                  scopes = commentSwitch comments (token sc) (typeL l),
                                  endIndex = None\<rparr>]
                           else tokens (ret v2)) @ postmanVariablesInString l
                     else (if \<not> skip l
                           then tokens (ret v2) @ [\<lparr>startIndex = offset,
                                  scopes = commentSwitch comments (token sc) (typeL l),
                                  endIndex = None\<rparr>]
                           else tokens (ret v2))),
                  endState = \<lparr>stateData = stateData st0,
                              scanError = Some (getTokenError (scanner v2)),
                              lastWasColon = lastWasColonV v2,
                              parents = parentsV v2\<rparr>\<rparr>\<rparr>))"
        unfolding V using notEOF adv by simp
      show ?thesis
      proof (cases "kindSwitchS g line languageId offset (token sc) vS1")
        case (Inl e)
        show ?thesis
        proof (cases e)
          case (Thrown x)
          then show ?thesis
            using K Inl unfolding S V' by (simp add: simK_def simI_def simR_def)
        next
          case DanglingReference
          then show ?thesis using K Inl by (simp add: simK_def)
        qed
      next
        case (Inr p)
        obtain vS2 l where p: "p = (vS2, l)" by (cases p)
        obtain v2 where k2: "kindSwitch g line languageId offset (token sc) v1 = Inr (v2, l)"
          and s2: "sim vS2 v2" and ss: "states (store vS2) = states (store vS)"
          using K Inr p st1 by (auto simp: simK_def)
        have lk: "lookupState (store vS2) state = Some (states (store vS) ! state)"
          using lt ss by (simp add: lookupState_def)
        define obj where
          "obj = \<lparr>stateDataF = stateDataF (states (store vS) ! state),
                  scanErrorF = Some (getTokenError (scannerS vS2)),
                  lastWasColonF = lastWasColonS vS2, parentsF = parentsS vS2\<rparr>"
        define toks where
          "toks = (if postmanVariablesInString l \<noteq> []
                     then (if \<not> skip l
                           then tokensS vS2 @ [\<lparr>startIndex = offset,
                                  scopes = commentSwitch comments (token sc) (typeL l),
                                  endIndex = None\<rparr>]
                           else tokensS vS2) @ postmanVariablesInString l
                     else (if \<not> skip l
                           then tokensS vS2 @ [\<lparr>startIndex = offset,
                                  scopes = commentSwitch comments (token sc) (typeL l),
                                  endIndex = None\<rparr>]
                           else tokensS vS2))"
        define vS3 where
          "vS3 = vS2\<lparr>store := snd (newJSONState (store vS2) obj),
                     endStateS := fst (newJSONState (store vS2) obj), tokensS := toks\<rparr>"
        define v3 where
          "v3 = v2\<lparr>ret := \<lparr>tokens = toks,
                  endState = \<lparr>stateData = stateData st0,
                              scanError = Some (getTokenError (scanner v2)),
                              lastWasColon = lastWasColonV v2,
                              parents = parentsV v2\<rparr>\<rparr>\<rparr>"
        have eS: "tokenizeStepS g comments line state offsetDelta languageId n vS = Continue vS3"
          unfolding S by (simp add: Inr p lk vS3_def obj_def toks_def)
        have tk2: "tokens (ret v2) = tokensS vS2" using s2 by (simp add: sim_def)
        have eV: "tokenizeStep g comments line st0 offsetDelta languageId n v = Continue v3"
          unfolding V' by (simp add: k2 v3_def toks_def tk2)
        have s3: "sim vS3 v3"
          using s2 by (simp add: sim_def vS3_def v3_def newJSONState_def)
        have "simL state st0 vS3 v3"
          using s3 s2 lt ss sd
          by (simp add: simL_def vS3_def v3_def newJSONState_def nth_append absObj_def obj_def
                        sim_def)
        then show ?thesis by (simp add: eS eV simI_def)
      qed
    qed
  qed
qed

lemma tokenizeLoop_sim:
  assumes "tokenizeLoopS g comments line state offsetDelta languageId n vS = Some rS"
    and "simL state st0 vS v"
  shows "\<exists>r. tokenizeLoop g comments line st0 offsetDelta languageId n v = Some r \<and> simR rS r"
proof -
  have "\<forall>v. simL state st0 vS v \<longrightarrow>
          (\<exists>r. tokenizeLoop g comments line st0 offsetDelta languageId n v = Some r \<and> simR rS r)"
  proof (rule tokenizeLoopS.raw_induct
           [where P = "\<lambda>g comments line state' offsetDelta languageId n vS rS.
                         \<forall>v. simL state' st0 vS v \<longrightarrow>
                           (\<exists>r. tokenizeLoop g comments line st0 offsetDelta languageId n v = Some r
                                \<and> simR rS r)",
            OF _ assms(1)])
    fix loop g comments line state offsetDelta languageId n and vS :: "'a TokenizeVarsS" and rS
    assume IH: "\<And>g comments line state offsetDelta languageId n vS rS.
                  loop g comments line state offsetDelta languageId n vS = Some rS \<Longrightarrow>
                  \<forall>v. simL state st0 vS v \<longrightarrow>
                    (\<exists>r. tokenizeLoop g comments line st0 offsetDelta languageId n v = Some r
                         \<and> simR rS r)"
      and eq: "(case tokenizeStepS g comments line state offsetDelta languageId n vS of
                  Exit r \<Rightarrow> Some r
                | Continue v' \<Rightarrow> loop g comments line state offsetDelta languageId n v') = Some rS"
    show "\<forall>v. simL state st0 vS v \<longrightarrow>
            (\<exists>r. tokenizeLoop g comments line st0 offsetDelta languageId n v = Some r \<and> simR rS r)"
    proof (intro allI impI)
      fix v
      assume f: "simL state st0 vS v"
      note stp = tokenizeStep_sim[OF f, of g comments line offsetDelta languageId n]
      show "\<exists>r. tokenizeLoop g comments line st0 offsetDelta languageId n v = Some r \<and> simR rS r"
      proof (cases "tokenizeStepS g comments line state offsetDelta languageId n vS")
        case (Exit r')
        then obtain r where "tokenizeStep g comments line st0 offsetDelta languageId n v = Exit r"
          "simR r' r"
          using stp by (auto simp: simI_def)
        then show ?thesis
          using eq Exit by (subst tokenizeLoop.simps) simp
      next
        case (Continue vS')
        then obtain v' where c: "tokenizeStep g comments line st0 offsetDelta languageId n v = Continue v'"
          and l: "simL state st0 vS' v'"
          using stp by (auto simp: simI_def)
        have "loop g comments line state offsetDelta languageId n vS' = Some rS"
          using eq Continue by simp
        then obtain r where "tokenizeLoop g comments line st0 offsetDelta languageId n v' = Some r"
          "simR rS r"
          using IH l by blast
        then show ?thesis
          using c by (subst tokenizeLoop.simps) simp
      qed
    qed
  qed
  then show ?thesis using assms(2) by simp
qed

text \<open>
  A call on a well-formed store that returns gives what the value version gives on the state
  the input object stands for: the same error, or the same tokens and an end state object
  standing for the same end state.  The store version never meets a dangling reference there.
\<close>

lemma tokenizeS_refines_tokenize:
  assumes wf: "wfFrames (frames h)" and lt: "state < length (states h)"
    and valid: "validRef (frames h) (parentsF (states h ! state))"
    and run: "tokenizeS g comments line h state offsetDelta languageId = Some rS"
  shows "\<exists>r. tokenize g comments line (absObj (frames h) (states h ! state)) offsetDelta languageId
                = Some r \<and> simR rS r"
proof -
  define st where "st = states h ! state"
  define st0 where "st0 = absObj (frames h) st"
  define line' where "line' = insertedPrefix (scanErrorF st) @ line"
  define k where "k = int (length (insertedPrefix (scanErrorF st)))"
  define vS0 where
    "vS0 = \<lparr>store = snd (newJSONState h st), scannerS = createScanner line',
            lastWasColonS = lastWasColonF st, parentsS = parentsF st,
            openBracesCountS = 0, adjustOffsetS = False, tokensS = [],
            endStateS = fst (newJSONState h st)\<rparr>"
  define v0 where
    "v0 = \<lparr>scanner = createScanner line', lastWasColonV = lastWasColon st0,
           parentsV = parents st0, openBracesCount = 0, adjustOffset = False,
           ret = \<lparr>tokens = [], endState = clone st0\<rparr>\<rparr>"
  have lk: "lookupState h state = Some st" using lt by (simp add: lookupState_def st_def)
  have runS: "tokenizeLoopS g comments line' state offsetDelta languageId k vS0 = Some rS"
    using run by (simp add: tokenizeS_def lk Let_def vS0_def line'_def k_def)
  have se: "scanError st0 = scanErrorF st" by (simp add: st0_def absObj_def)
  have runV: "tokenize g comments line st0 offsetDelta languageId =
                tokenizeLoop g comments line' st0 offsetDelta languageId k v0"
    by (simp add: tokenize_def Let_def se v0_def line'_def k_def)
  have "simL state st0 vS0 v0"
    using wf lt valid
    by (simp add: simL_def sim_def vS0_def v0_def newJSONState_def nth_append st0_def absObj_def
                  clone_def st_def)
  from tokenizeLoop_sim[OF runS this] have
    "\<exists>r. tokenize g comments line st0 offsetDelta languageId = Some r \<and> simR rS r"
    by (simp add: runV)
  then show ?thesis by (simp add: st0_def st_def)
qed

lemma tokenizeLoopS_sim:
  assumes "tokenizeLoop g comments line st0 offsetDelta languageId n v = Some r"
    and "simL state st0 vS v"
  shows "\<exists>rS. tokenizeLoopS g comments line state offsetDelta languageId n vS = Some rS \<and> simR rS r"
proof -
  have "\<forall>vS. simL state st0 vS v \<longrightarrow>
          (\<exists>rS. tokenizeLoopS g comments line state offsetDelta languageId n vS = Some rS
                \<and> simR rS r)"
  proof (rule tokenizeLoop.raw_induct
           [where P = "\<lambda>g comments line st0 offsetDelta languageId n v r.
                         \<forall>vS. simL state st0 vS v \<longrightarrow>
                           (\<exists>rS. tokenizeLoopS g comments line state offsetDelta languageId n vS
                                   = Some rS \<and> simR rS r)",
            OF _ assms(1)])
    fix loop g comments line and st0 :: "'a JSONState" and offsetDelta languageId n v r
    assume IH: "\<And>g comments line st0 offsetDelta languageId n v r.
                  loop g comments line st0 offsetDelta languageId n v = Some r \<Longrightarrow>
                  \<forall>vS. simL state st0 vS v \<longrightarrow>
                    (\<exists>rS. tokenizeLoopS g comments line state offsetDelta languageId n vS = Some rS
                          \<and> simR rS r)"
      and eq: "(case tokenizeStep g comments line st0 offsetDelta languageId n v of
                  Exit r \<Rightarrow> Some r
                | Continue v' \<Rightarrow> loop g comments line st0 offsetDelta languageId n v') = Some r"
    show "\<forall>vS. simL state st0 vS v \<longrightarrow>
            (\<exists>rS. tokenizeLoopS g comments line state offsetDelta languageId n vS = Some rS
                  \<and> simR rS r)"
    proof (intro allI impI)
      fix vS
      assume f: "simL state st0 vS v"
      note stp = tokenizeStep_sim[OF f, of g comments line offsetDelta languageId n]
      show "\<exists>rS. tokenizeLoopS g comments line state offsetDelta languageId n vS = Some rS
                 \<and> simR rS r"
      proof (cases "tokenizeStepS g comments line state offsetDelta languageId n vS")
        case (Exit r')
        then obtain r0 where "tokenizeStep g comments line st0 offsetDelta languageId n v = Exit r0"
          "simR r' r0"
          using stp by (auto simp: simI_def)
        then show ?thesis
          using eq Exit by (subst tokenizeLoopS.simps) simp
      next
        case (Continue vS')
        then obtain v' where c: "tokenizeStep g comments line st0 offsetDelta languageId n v = Continue v'"
          and l: "simL state st0 vS' v'"
          using stp by (auto simp: simI_def)
        have "loop g comments line st0 offsetDelta languageId n v' = Some r"
          using eq c by simp
        then obtain rS where
          "tokenizeLoopS g comments line state offsetDelta languageId n vS' = Some rS" "simR rS r"
          using IH l by blast
        then show ?thesis
          using Continue by (subst tokenizeLoopS.simps) simp
      qed
    qed
  qed
  then show ?thesis using assms(2) by simp
qed

text \<open>And a call of the value version that returns is matched by a call on the store that
  returns: the store version does not run longer than the value version.\<close>

lemma tokenize_refined_by_tokenizeS:
  assumes wf: "wfFrames (frames h)" and lt: "state < length (states h)"
    and valid: "validRef (frames h) (parentsF (states h ! state))"
    and run: "tokenize g comments line (absObj (frames h) (states h ! state)) offsetDelta languageId
                = Some r"
  shows "\<exists>rS. tokenizeS g comments line h state offsetDelta languageId = Some rS \<and> simR rS r"
proof -
  define st where "st = states h ! state"
  define st0 where "st0 = absObj (frames h) st"
  define line' where "line' = insertedPrefix (scanErrorF st) @ line"
  define k where "k = int (length (insertedPrefix (scanErrorF st)))"
  define vS0 where
    "vS0 = \<lparr>store = snd (newJSONState h st), scannerS = createScanner line',
            lastWasColonS = lastWasColonF st, parentsS = parentsF st,
            openBracesCountS = 0, adjustOffsetS = False, tokensS = [],
            endStateS = fst (newJSONState h st)\<rparr>"
  define v0 where
    "v0 = \<lparr>scanner = createScanner line', lastWasColonV = lastWasColon st0,
           parentsV = parents st0, openBracesCount = 0, adjustOffset = False,
           ret = \<lparr>tokens = [], endState = clone st0\<rparr>\<rparr>"
  have lk: "lookupState h state = Some st" using lt by (simp add: lookupState_def st_def)
  have eqS: "tokenizeS g comments line h state offsetDelta languageId =
               tokenizeLoopS g comments line' state offsetDelta languageId k vS0"
    by (simp add: tokenizeS_def lk Let_def vS0_def line'_def k_def)
  have se: "scanError st0 = scanErrorF st" by (simp add: st0_def absObj_def)
  have "tokenize g comments line st0 offsetDelta languageId =
          tokenizeLoop g comments line' st0 offsetDelta languageId k v0"
    by (simp add: tokenize_def Let_def se v0_def line'_def k_def)
  then have runV: "tokenizeLoop g comments line' st0 offsetDelta languageId k v0 = Some r"
    using run by (simp add: st0_def st_def)
  have "simL state st0 vS0 v0"
    using wf lt valid
    by (simp add: simL_def sim_def vS0_def v0_def newJSONState_def nth_append st0_def absObj_def
                  clone_def st_def)
  from tokenizeLoopS_sim[OF runV this] show ?thesis
    by (simp add: eqS)
qed

subsection \<open>The store only grows\<close>

definition extends :: "'s Store \<Rightarrow> 's Store \<Rightarrow> bool" where
  "extends h h' \<longleftrightarrow> prefix (frames h) (frames h') \<and> prefix (states h) (states h')"

lemma extends_refl: "extends h h"
  by (simp add: extends_def)

lemma extends_trans: "extends h1 h2 \<Longrightarrow> extends h2 h3 \<Longrightarrow> extends h1 h3"
  by (auto simp: extends_def)

lemma extends_newParentsStack: "extends h (snd (newParentsStack h p ty))"
  by (simp add: extends_def newParentsStack_def)

lemma extends_pushS: "extends h (snd (pushS h p ty))"
  by (simp add: pushS_def extends_newParentsStack)

lemma extends_newJSONState: "extends h (snd (newJSONState h obj))"
  by (simp add: extends_def newJSONState_def)

lemma newJSONState_address:
  "fst (newJSONState h obj) = length (states h)"
  "length (states (snd (newJSONState h obj))) = Suc (length (states h))"
  by (simp_all add: newJSONState_def)

lemma extends_states_length: "extends h h' \<Longrightarrow> length (states h) \<le> length (states h')"
  by (simp add: extends_def prefix_length_le)

lemma store_openBraceCaseS:
  assumes "openBraceCaseS g line languageId offset v = Inr (v', l)"
  shows "store v' = snd (pushS (store v) (parentsS v) Object)"
proof -
  define v1 where
    "v1 = v\<lparr>parentsS := fst (pushS (store v) (parentsS v) Object),
            store := snd (pushS (store v) (parentsS v) Object)\<rparr>"
  have s1: "store v1 = snd (pushS (store v) (parentsS v) Object)"
    by (simp add: v1_def)
  have "store v' = store v1"
    using assms unfolding openBraceCaseS_def Let_def v1_def[symmetric]
    by (auto split: if_splits sum.splits option.splits)
  then show ?thesis by (simp add: s1)
qed

lemma store_stringLiteralCaseS:
  "stringLiteralCaseS line languageId offset v = Inr (v', l) \<Longrightarrow> store v' = store v"
  unfolding stringLiteralCaseS_def Let_def
  by (auto split: if_splits sum.splits option.splits)

lemma store_closeCaseS: "closeCaseS ty v = Inr (v', l) \<Longrightarrow> store v' = store v"
  unfolding closeCaseS_def by (auto split: sum.splits)

lemma extends_kindSwitchS:
  assumes "kindSwitchS g line languageId offset kind v = Inr (v', l)"
  shows "extends (store v) (store v')"
proof (cases kind)
  case OpenBraceToken
  then show ?thesis
    using assms store_openBraceCaseS[of g line languageId offset v v' l]
    by (simp add: kindSwitchS_def extends_pushS)
next
  case CloseBraceToken
  then show ?thesis
    using assms store_closeCaseS[of TOKEN_DELIM_OBJECT v v' l]
    by (simp add: kindSwitchS_def extends_refl)
next
  case OpenBracketToken
  then show ?thesis
    using assms extends_pushS[of "store v" "parentsS v" Array]
    by (auto simp: kindSwitchS_def Let_def)
next
  case CloseBracketToken
  then show ?thesis
    using assms store_closeCaseS[of TOKEN_DELIM_ARRAY v v' l]
    by (simp add: kindSwitchS_def extends_refl)
next
  case StringLiteral
  then show ?thesis
    using assms store_stringLiteralCaseS[of line languageId offset v v' l]
    by (simp add: kindSwitchS_def extends_refl)
qed (use assms in \<open>auto simp: kindSwitchS_def extends_refl\<close>)

text \<open>What holds of the loop variables throughout a call on the store \<open>h0\<close>: the store has
  only grown, and the end state is an object of the store made during the call.\<close>

definition framed :: "'s Store \<Rightarrow> 's TokenizeVarsS \<Rightarrow> bool" where
  "framed h0 v \<longleftrightarrow>
     extends h0 (store v) \<and> length (states h0) \<le> endStateS v \<and>
     endStateS v < length (states (store v))"

definition framedResult :: "'s Store \<Rightarrow> 's resultS \<Rightarrow> bool" where
  "framedResult h0 r \<longleftrightarrow>
     extends h0 (snd r) \<and>
     (case fst r of
        Inl err \<Rightarrow> True
      | Inr (toks, e) \<Rightarrow> length (states h0) \<le> e \<and> e < length (states (snd r)))"

lemma tokenizeStepS_framed:
  assumes "framed h0 v"
  shows "case tokenizeStepS g comments line state offsetDelta languageId n v of
           Exit r \<Rightarrow> framedResult h0 r
         | Continue v' \<Rightarrow> framed h0 v'"
proof -
  define sc where "sc = scan (scannerS v)"
  define offset where
    "offset = (if adjustOffsetS v then offsetDelta + getPosition (scannerS v) - n
               else offsetDelta + getPosition (scannerS v))"
  define v1 where
    "v1 = v\<lparr>scannerS := sc, adjustOffsetS := (n > 0),
            openBracesCountS := (if token sc = OpenBraceToken then openBracesCountS v + 1 else 0)\<rparr>"
  have st1: "store v1 = store v" by (simp add: v1_def)
  have ex: "extends h0 (store v)" and lo: "length (states h0) \<le> endStateS v"
    and hi: "endStateS v < length (states (store v))"
    using assms by (simp_all add: framed_def)
  show ?thesis
  proof (cases "token sc = EOF")
    case True
    then show ?thesis
      using ex lo hi by (simp add: tokenizeStepS_def Let_def sc_def[symmetric] framedResult_def)
  next
    case notEOF: False
    show ?thesis
    proof (cases "offsetDelta + getPosition (scannerS v) = offsetDelta + getPosition sc")
      case True
      then show ?thesis
        using notEOF ex
        by (simp add: tokenizeStepS_def Let_def sc_def[symmetric] framedResult_def)
    next
      case adv: False
      show ?thesis
      proof (cases "kindSwitchS g line languageId offset (token sc) v1")
        case (Inl e)
        then show ?thesis
          using notEOF adv ex st1
          unfolding tokenizeStepS_def Let_def sc_def[symmetric] offset_def[symmetric]
                    v1_def[symmetric]
          by (simp add: framedResult_def)
      next
        case (Inr p)
        obtain v2 l where p: "p = (v2, l)" by (cases p)
        have e2: "extends h0 (store v2)"
          using extends_kindSwitchS[of g line languageId offset "token sc" v1 v2 l] Inr p ex st1
                extends_trans[of h0 "store v" "store v2"]
          by simp
        show ?thesis
        proof (cases "lookupState (store v2) state")
          case None
          then show ?thesis
            using notEOF adv Inr p e2
            unfolding tokenizeStepS_def Let_def sc_def[symmetric] offset_def[symmetric]
                      v1_def[symmetric]
            by (simp add: framedResult_def)
        next
          case (Some st)
          let ?obj = "\<lparr>stateDataF = stateDataF st,
                        scanErrorF = Some (getTokenError (scannerS v2)),
                        lastWasColonF = lastWasColonS v2, parentsF = parentsS v2\<rparr>"
          have "extends h0 (snd (newJSONState (store v2) ?obj))"
            using e2 extends_newJSONState extends_trans by blast
          moreover have "length (states h0) \<le> fst (newJSONState (store v2) ?obj)"
            using extends_states_length[OF e2] by (simp add: newJSONState_address)
          moreover have "fst (newJSONState (store v2) ?obj)
                           < length (states (snd (newJSONState (store v2) ?obj)))"
            by (simp add: newJSONState_address)
          ultimately show ?thesis
            using notEOF adv Inr p Some
            unfolding tokenizeStepS_def Let_def sc_def[symmetric] offset_def[symmetric]
                      v1_def[symmetric]
            by (simp add: framed_def)
        qed
      qed
    qed
  qed
qed

lemma tokenizeLoopS_framed:
  assumes "tokenizeLoopS g comments line state offsetDelta languageId n v = Some r"
    and "framed h0 v"
  shows "framedResult h0 r"
proof -
  have "framed h0 v \<longrightarrow> framedResult h0 r"
  proof (rule tokenizeLoopS.raw_induct
           [where P = "\<lambda>g comments line state offsetDelta languageId n v r.
                         framed h0 v \<longrightarrow> framedResult h0 r",
            OF _ assms(1)])
    fix loop g comments line state offsetDelta languageId n and v :: "'a TokenizeVarsS" and r
    assume IH: "\<And>g comments line state offsetDelta languageId n v r.
                  loop g comments line state offsetDelta languageId n v = Some r \<Longrightarrow>
                  framed h0 v \<longrightarrow> framedResult h0 r"
      and eq: "(case tokenizeStepS g comments line state offsetDelta languageId n v of
                  Exit r \<Rightarrow> Some r
                | Continue v' \<Rightarrow> loop g comments line state offsetDelta languageId n v') = Some r"
    show "framed h0 v \<longrightarrow> framedResult h0 r"
    proof
      assume f: "framed h0 v"
      show "framedResult h0 r"
      proof (cases "tokenizeStepS g comments line state offsetDelta languageId n v")
        case (Exit r')
        then show ?thesis
          using eq tokenizeStepS_framed[OF f, of g comments line state offsetDelta languageId n]
          by simp
      next
        case (Continue v')
        then show ?thesis
          using eq tokenizeStepS_framed[OF f, of g comments line state offsetDelta languageId n]
                IH[of g comments line state offsetDelta languageId n v' r]
          by simp
      qed
    qed
  qed
  then show ?thesis using assms(2) by simp
qed

lemma tokenizeS_framed:
  assumes "tokenizeS g comments line h state offsetDelta languageId = Some r"
  shows "framedResult h r"
proof (cases "lookupState h state")
  case None
  then show ?thesis
    using assms by (auto simp: tokenizeS_def framedResult_def extends_refl)
next
  case (Some st)
  let ?v0 = "\<lparr>store = snd (newJSONState h st),
              scannerS = createScanner (insertedPrefix (scanErrorF st) @ line),
              lastWasColonS = lastWasColonF st, parentsS = parentsF st,
              openBracesCountS = 0, adjustOffsetS = False, tokensS = [],
              endStateS = fst (newJSONState h st)\<rparr>"
  have "framed h ?v0"
    by (simp add: framed_def extends_newJSONState newJSONState_address)
  then show ?thesis
    using assms Some tokenizeLoopS_framed[of _ _ _ _ _ _ _ ?v0 r h]
    by (simp add: tokenizeS_def Let_def)
qed

lemma extends_lookup:
  assumes "extends h h'"
  shows "a < length (states h) \<Longrightarrow> lookupState h' a = lookupState h a"
    and "b < length (frames h) \<Longrightarrow> lookupFrame h' b = lookupFrame h b"
proof -
  obtain fs ss where "frames h' = frames h @ fs" "states h' = states h @ ss"
    using assms by (auto simp: extends_def prefix_def)
  then show "a < length (states h) \<Longrightarrow> lookupState h' a = lookupState h a"
    and "b < length (frames h) \<Longrightarrow> lookupFrame h' b = lookupFrame h b"
    by (simp_all add: lookupState_def lookupFrame_def nth_append)
qed

text \<open>
  Claim C8.  Whenever a call of \<^verbatim>\<open>tokenize\<close> on a store returns, with tokens or with an error,
  every object of the store it was given is unchanged in the store it leaves: every
  \<^verbatim>\<open>JSONState\<close> object, the input state among them, has the fields it had, and so has every
  \<^verbatim>\<open>ParentsStack\<close> node, those reachable from the input state among them.  When tokens are
  returned, the end state is an object that was made during the call: its address is none of
  the store given, and it is an object of the store left.
\<close>

theorem tokenize_leaves_its_input_unchanged:
  assumes "tokenizeS g comments line h state offsetDelta languageId = Some (res, h')"
  shows "(\<forall>a < length (states h). lookupState h' a = lookupState h a) \<and>
         (\<forall>b < length (frames h). lookupFrame h' b = lookupFrame h b) \<and>
         (\<forall>toks e. res = Inr (toks, e) \<longrightarrow>
            length (states h) \<le> e \<and> e < length (states h') \<and> e \<noteq> state)"
proof -
  have f: "framedResult h (res, h')" using tokenizeS_framed[OF assms] .
  then have ex: "extends h h'" by (simp add: framedResult_def)
  have valid: "state < length (states h)" if "res = Inr (toks, e)" for toks e
  proof (rule ccontr)
    assume "\<not> state < length (states h)"
    then have "lookupState h state = None" by (simp add: lookupState_def)
    then show False using assms that by (simp add: tokenizeS_def)
  qed
  show ?thesis
    using extends_lookup[OF ex] f valid by (fastforce simp: framedResult_def)
qed

theorem tokenize_leaves_its_input_unchanged_witness:
  "tokenizeS Writable True ''{''
     \<lparr>frames = [],
      states = [\<lparr>stateDataF = (None :: unit option), scanErrorF = None, lastWasColonF = False,
                 parentsF = None\<rparr>]\<rparr> 0 0 None =
   Some (Inr ([\<lparr>startIndex = 0, scopes = TOKEN_DELIM_OBJECT, endIndex = None\<rparr>], 2),
         \<lparr>frames = [\<lparr>parentF = None, typeF = Object\<rparr>],
          states = [\<lparr>stateDataF = None, scanErrorF = None, lastWasColonF = False,
                     parentsF = None\<rparr>,
                    \<lparr>stateDataF = None, scanErrorF = None, lastWasColonF = False,
                     parentsF = None\<rparr>,
                    \<lparr>stateDataF = None, scanErrorF = Some ScanError_None,
                     lastWasColonF = False, parentsF = Some 0\<rparr>]\<rparr>) \<and>
   lookupState
     \<lparr>frames = [\<lparr>parentF = None, typeF = Object\<rparr>],
      states = [\<lparr>stateDataF = (None :: unit option), scanErrorF = None, lastWasColonF = False,
                 parentsF = None\<rparr>,
                \<lparr>stateDataF = None, scanErrorF = None, lastWasColonF = False,
                 parentsF = None\<rparr>,
                \<lparr>stateDataF = None, scanErrorF = Some ScanError_None,
                 lastWasColonF = False, parentsF = Some 0\<rparr>]\<rparr> 0 =
   lookupState
     \<lparr>frames = [],
      states = [\<lparr>stateDataF = (None :: unit option), scanErrorF = None, lastWasColonF = False,
                 parentsF = None\<rparr>]\<rparr> 0 \<and>
   (1::nat) \<le> 2 \<and> (2::nat) \<noteq> 0"
proof -
  let ?h = "\<lparr>frames = [],
      states = [\<lparr>stateDataF = (None :: unit option), scanErrorF = None, lastWasColonF = False,
                 parentsF = None\<rparr>]\<rparr>"
  let ?h' = "\<lparr>frames = [\<lparr>parentF = None, typeF = Object\<rparr>],
          states = [\<lparr>stateDataF = (None :: unit option), scanErrorF = None,
                     lastWasColonF = False, parentsF = None\<rparr>,
                    \<lparr>stateDataF = None, scanErrorF = None, lastWasColonF = False,
                     parentsF = None\<rparr>,
                    \<lparr>stateDataF = None, scanErrorF = Some ScanError_None,
                     lastWasColonF = False, parentsF = Some 0\<rparr>]\<rparr>"
  have t: "tokenizeS Writable True ''{'' ?h 0 0 None =
      Some (Inr ([\<lparr>startIndex = 0, scopes = TOKEN_DELIM_OBJECT, endIndex = None\<rparr>], 2), ?h')"
    by code_simp
  show ?thesis
    using t tokenize_leaves_its_input_unchanged[OF t] by simp
qed

end
